theory Spec2Isabelle
  imports Complex_Main "HOL-Library.Sublist"
begin

text \<open>
  A shallow embedding of the chat backend: the chunking of the ingestion pipeline
  (\<^verbatim>\<open>functions/storeResources.js\<close>), the retrieval-augmented responder
  (\<^verbatim>\<open>functions/aiResponse.js\<close>), the AI takeover state
  (\<^verbatim>\<open>functions/aiChatHandler.js\<close>) and the session router (\<^verbatim>\<open>index.js\<close>).
  The definitions come first, the theorems after them.

  Left out of the embedding: the scraping and the embedding of documents before they are
  stored, the handlers \<open>owner:ready\<close>, \<open>get:active-users\<close> and \<open>joinUser\<close>, the HTTP
  endpoints that only read, and what the handlers write to the console. An emission
  names the room it goes to, which is the id of a socket; which sockets have joined the
  room (\<open>joinUser\<close> lets the socket of an owner join the room of a user) is not part of
  the state.
\<close>

section \<open>Resource ingestion: splitTextIntoChunks (functions/storeResources.js)\<close>

text \<open>
  A JavaScript string is a sequence of UTF-16 code units; \<open>text.length\<close> counts them and
  \<open>text.slice\<close> cuts between them. The text is therefore a list of code units, of any
  element type. \<open>chunkSize\<close>, \<open>overlap\<close> and \<open>start\<close> are JavaScript numbers holding
  integers, modelled as \<open>int\<close>.

  \<open>String.prototype.slice(start, end)\<close>: a negative index counts from the end of the
  string, both indices are clamped to \<open>[0, length]\<close>, and the result is empty when the
  clamped end is not after the clamped start.
\<close>

definition js_slice :: "'a list \<Rightarrow> int \<Rightarrow> int \<Rightarrow> 'a list" where
  "js_slice text start end =
     (let len = int (length text);
          from = (if start < 0 then max (len + start) 0 else min start len);
          to = (if end < 0 then max (len + end) 0 else min end len)
      in take (nat (to - from)) (drop (nat from) text))"

text \<open>
  The loop of \<open>splitTextIntoChunks\<close>:
  \<^verbatim>\<open>
  while (start < text.length) {
    const end = Math.min(start + chunkSize, text.length);
    chunks.push(text.slice(start, end));
    start += chunkSize - overlap;
  }
  return chunks;
  \<close>
  \<open>chunk_at\<close> is the chunk one iteration pushes. The loop need not end, so it is a
  partial function into \<open>option\<close>: \<open>None\<close> is "does not return".
\<close>

definition chunk_at :: "'a list \<Rightarrow> int \<Rightarrow> int \<Rightarrow> 'a list" where
  "chunk_at text chunkSize start =
     js_slice text start (min (start + chunkSize) (int (length text)))"

partial_function (option) chunk_loop ::
  "'a list \<Rightarrow> int \<Rightarrow> int \<Rightarrow> int \<Rightarrow> 'a list list \<Rightarrow> 'a list list option" where
  "chunk_loop text chunkSize overlap start chunks =
     (if start < int (length text)
      then chunk_loop text chunkSize overlap (start + (chunkSize - overlap))
             (chunks @ [chunk_at text chunkSize start])
      else Some chunks)"

definition splitTextIntoChunks :: "'a list \<Rightarrow> int \<Rightarrow> int \<Rightarrow> 'a list list option" where
  "splitTextIntoChunks text chunkSize overlap = chunk_loop text chunkSize overlap 0 []"

section \<open>JavaScript values\<close>

text \<open>
  Identifiers, names and message texts are JavaScript strings or \<open>null\<close>/\<open>undefined\<close>:
  \<open>string option\<close>, with \<open>None\<close> for both \<open>null\<close> and \<open>undefined\<close>. The empty
  string is falsy, so \<open>x || null\<close> maps it to \<open>null\<close> and \<open>if (x)\<close> skips it.
\<close>

definition orNull :: "string option \<Rightarrow> string option" where
  "orNull x = (case x of None \<Rightarrow> None | Some v \<Rightarrow> if v = [] then None else Some v)"

definition truthy :: "string option \<Rightarrow> bool" where
  "truthy x = (orNull x \<noteq> None)"

text \<open>\<open>haystack.includes(needle)\<close>: the needle occurs as a contiguous substring.\<close>

fun js_includes :: "string \<Rightarrow> string \<Rightarrow> bool" where
  "js_includes [] needle = (needle = [])"
| "js_includes (c # cs) needle = (prefix needle (c # cs) \<or> js_includes cs needle)"

text \<open>
  A thrown value. \<open>Error m\<close> is an \<open>Error\<close> object whose \<open>message\<close> is \<open>m\<close>
  (\<open>None\<close>: no message); \<open>TypeError\<close> is what reading a property of \<open>undefined\<close>
  throws.
\<close>

datatype js_error = Error "string option" | TypeError

fun error_message :: "js_error \<Rightarrow> string option" where
  "error_message (Error m) = m"
| "error_message TypeError = Some ''Cannot read properties of undefined''"

section \<open>Data model\<close>

text \<open>The \<open>from\<close> field of a message.\<close>

datatype origin = User | Owner | Ai

text \<open>An entry of \<open>sources\<close>: \<open>{ fileName, sourceType, relevanceScore }\<close>.\<close>

record source =
  fileName :: "string option"
  sourceType :: "string option"
  relevanceScore :: real

text \<open>
  A message object, as pushed to a conversation and as emitted on a socket. The objects
  of the source carry different subsets of these fields; a field an object does not have
  is \<open>None\<close>. \<open>m_error\<close> is the \<open>error: true\<close> of the apology \<open>processUserMessage\<close> returns
  when it catches an exception.
\<close>

record message =
  m_from :: origin
  m_text :: string
  m_ts :: nat
  m_userId :: "string option"
  m_ownerId :: "string option"
  m_username :: "string option"
  m_useremail :: "string option"
  m_userphone :: "string option"
  m_contextUsed :: "bool option"
  m_sources :: "source list option"
  m_error :: bool

text \<open>An entry of \<open>metadataBuffer\<close>; \<open>metadataBuffer.get(uid) || {}\<close> reads \<open>no_meta\<close> for a missing one.\<close>

record meta =
  username :: "string option"
  useremail :: "string option"
  userphone :: "string option"
  ownerId :: "string option"

definition no_meta :: meta where
  "no_meta = \<lparr>username = None, useremail = None, userphone = None, ownerId = None\<rparr>"

text \<open>
  A document of the Mongo collection \<open>chats\<close>, keyed by \<open>userId\<close>. A missing
  \<open>conversation\<close> array and an empty one are both \<open>[]\<close>: \<open>$push\<close> creates the array, and
  \<open>getConversationHistory\<close> returns \<open>[]\<close> for both.
\<close>

record chat_doc =
  createdAt :: "nat option"
  conversation :: "message list"
  d_ownerId :: "string option"
  d_username :: "string option"
  d_useremail :: "string option"
  d_userphone :: "string option"
  lastSeen :: "nat option"

text \<open>A document of the Mongo collection \<open>ai_chat_state\<close>; \<open>aiActive = None\<close>: the field is missing.\<close>

record ai_state_doc =
  aiActive :: "bool option"
  lastUpdated :: nat

text \<open>What \<open>io.to(room).emit(event, payload)\<close> sends.\<close>

datatype payload =
    MessageP message
  | UserIdP string
  | MetadataP string meta
  | ActiveUsersP "string list"

record emitted =
  room :: string
  event :: string
  payload :: payload

text \<open>
  The state of the server process and of its database.
  \<^item> \<open>users\<close>, \<open>owners\<close>, \<open>messagesBuffer\<close>, \<open>metadataBuffer\<close>: the four \<open>Map\<close>s of \<open>index.js\<close>;
  \<^item> \<open>chatsCollection\<close>: whether the handle of that name in \<open>index.js\<close> is set (it is \<open>null\<close>
    until \<open>initMongo\<close> has connected, and for ever when the connection fails);
  \<^item> \<open>ai_chatsCollection\<close>, \<open>aiStateCollection\<close>: the same for the two handles of
    \<open>aiChatHandler.js\<close>;
  \<^item> \<open>db_chats\<close>, \<open>db_ai_chat_state\<close>: the contents of the Mongo collections \<open>chats\<close> and
    \<open>ai_chat_state\<close>, by \<open>userId\<close>;
  \<^item> \<open>db_knowledgebase\<close>: the \<open>companyWebsite\<close> of the owner's record in the collection
    \<open>knowledgebase\<close>, \<open>None\<close> when there is no record or no website.
\<close>

record server =
  users :: "string \<Rightarrow> string option"
  owners :: "string \<Rightarrow> string option"
  messagesBuffer :: "string \<Rightarrow> message list option"
  metadataBuffer :: "string \<Rightarrow> meta option"
  chatsCollection :: bool
  ai_chatsCollection :: bool
  aiStateCollection :: bool
  db_chats :: "string \<Rightarrow> chat_doc option"
  db_ai_chat_state :: "string \<Rightarrow> ai_state_doc option"
  db_knowledgebase :: "string \<Rightarrow> string option"

section \<open>External collaborators\<close>

text \<open>
  A point returned by Qdrant's search (\<open>with_payload: true\<close>): its score and the fields of
  its payload that the code reads.
\<close>

record hit =
  score :: real
  payload_text :: string
  payload_sourceType :: "string option"
  payload_fileName :: "string option"
  payload_chunkIndex :: "nat option"

text \<open>An entry of the context \<open>searchOwnerKnowledge\<close> returns: \<open>{ text, score, metadata }\<close>.\<close>

record ctx =
  c_text :: string
  c_score :: real
  c_sourceType :: "string option"
  c_fileName :: "string option"
  c_chunkIndex :: "nat option"

text \<open>What \<open>qdrantClient.getCollection\<close> returns, as far as the code reads it.\<close>

record collection_info =
  points_count :: "nat option"
  vectors_count :: "nat option"

text \<open>
  The request \<open>generateAiResponse\<close> sends to the chat completion service. The system
  instruction is a fixed rendering of the context entries and of the website, so the
  request is given by the data it is rendered from: the context, the website, the last
  ten turns of the history with their two-party roles, and the user's message.
\<close>

datatype role = RoleUser | RoleAssistant

record chat_request =
  rq_context :: "ctx list"
  rq_website :: "string option"
  rq_history :: "(role \<times> string) list"
  rq_user :: string

text \<open>
  \<open>getAiResponseWithContext\<close> calls the completion service once, and a second time when it
  falls back.
\<close>

datatype attempt = Primary | Fallback

text \<open>
  The database calls of the handlers, by the place of the call. Each may throw.
\<close>

datatype site =
    ConnectFindOwner | ConnectSaveOwner
  | DisconnectFindOwner | DisconnectSave
  | MessageFindOwner | MessageLoadMetadata | MessageAppendUser | MessageAppendAi
  | OwnerAppend | OwnerFindOwner
  | SetMetadataSave
  | AiStateFind | AiStateUpdate | HistoryFind | HandlerAppendAi
  | WebsiteFind attempt

text \<open>
  What the outside world answers during one run of a handler: the clock (\<open>Date.now()\<close>,
  \<open>new Date()\<close>), which database calls throw, whether \<open>process.env.OPENAI_API_KEY\<close> is set,
  and the answers of the embeddings API, of the chat completion API and of the Qdrant
  client (\<open>Inl\<close>: the call throws, a response that is not \<open>ok\<close> included).
\<close>

record env =
  now :: nat
  fails :: "site \<Rightarrow> bool"
  OPENAI_API_KEY :: bool
  openai_embeddings :: "string \<Rightarrow> js_error + real list"
  openai_chat :: "attempt \<Rightarrow> chat_request \<Rightarrow> js_error + string"
  qdrant_search :: "string \<Rightarrow> real list \<Rightarrow> nat \<Rightarrow> js_error + hit list"
  qdrant_getCollection :: "string \<Rightarrow> js_error + collection_info"
  qdrant_deleteCollection :: "string \<Rightarrow> js_error + bool"

section \<open>Knowledge store adapter (functions/storeResources.js)\<close>

text \<open>The namespace of an owner: \<^verbatim>\<open>`owner_${ownerId}_knowledge`\<close>.\<close>

definition collectionName :: "string \<Rightarrow> string" where
  "collectionName owner = ''owner_'' @ owner @ ''_knowledge''"

text \<open>
  \<open>generateEmbedding\<close> throws when the API key is missing and rethrows what the request
  throws.
\<close>

definition generateEmbedding :: "env \<Rightarrow> string \<Rightarrow> js_error + real list" where
  "generateEmbedding e input =
     (if \<not> OPENAI_API_KEY e
      then Inl (Error (Some ''OPENAI_API_KEY not set in environment variables''))
      else openai_embeddings e input)"

text \<open>
  \<open>deleteOwnerResources\<close>:
  \<^verbatim>\<open>
  try {
    await qdrantClient.deleteCollection(collectionName);
    return { success: true, collectionName };
  } catch (error) {
    console.error('Error deleting owner resources:', error);
    throw error;
  }
  \<close>
\<close>

record delete_result =
  success :: bool
  deleted :: string

definition deleteOwnerResources :: "env \<Rightarrow> string \<Rightarrow> js_error + delete_result" where
  "deleteOwnerResources e owner =
     (case qdrant_deleteCollection e (collectionName owner) of
        Inl err \<Rightarrow> Inl err
      | Inr _ \<Rightarrow> Inr \<lparr>success = True, deleted = collectionName owner\<rparr>)"

text \<open>
  \<open>getOwnerResourceStats\<close>: an error whose message includes \<open>'Not found'\<close> gives the
  statistics of an empty namespace. \<open>error.message.includes\<close> is called with no check
  that there is a message, so an error without one throws a \<open>TypeError\<close>.
\<close>

record owner_stats =
  stats_ownerId :: string
  stats_collectionName :: string
  pointsCount :: "nat option"
  vectorsCount :: "nat option"
  stats_message :: "string option"

definition getOwnerResourceStats :: "env \<Rightarrow> string \<Rightarrow> js_error + owner_stats" where
  "getOwnerResourceStats e owner =
     (case qdrant_getCollection e (collectionName owner) of
        Inr info \<Rightarrow>
          Inr \<lparr>stats_ownerId = owner, stats_collectionName = collectionName owner,
               pointsCount = points_count info, vectorsCount = vectors_count info,
               stats_message = None\<rparr>
      | Inl err \<Rightarrow>
          (case error_message err of
             None \<Rightarrow> Inl TypeError
           | Some m \<Rightarrow>
               if js_includes m ''Not found''
               then Inr \<lparr>stats_ownerId = owner, stats_collectionName = collectionName owner,
                         pointsCount = Some 0, vectorsCount = Some 0,
                         stats_message = Some ''No resources stored yet''\<rparr>
               else Inl err))"

section \<open>Retrieval-augmented responder (functions/aiResponse.js)\<close>

text \<open>
  \<open>getOwnerWebsite\<close> catches every exception and returns \<open>null\<close>;
  otherwise \<open>ownerInfo?.companyWebsite || null\<close>.
\<close>

definition getOwnerWebsite :: "env \<Rightarrow> server \<Rightarrow> attempt \<Rightarrow> string \<Rightarrow> string option" where
  "getOwnerWebsite e s a owner =
     (if fails e (WebsiteFind a) then None else orNull (db_knowledgebase s owner))"

definition ctx_of_hit :: "hit \<Rightarrow> ctx" where
  "ctx_of_hit h = \<lparr>c_text = payload_text h, c_score = score h,
                    c_sourceType = payload_sourceType h, c_fileName = payload_fileName h,
                    c_chunkIndex = payload_chunkIndex h\<rparr>"

text \<open>
  The \<open>catch\<close> of \<open>searchOwnerKnowledge\<close>:
  \<^verbatim>\<open>
  if (error.message && error.message.includes('Not found')) { return []; }
  throw error;
  \<close>
\<close>

definition search_catch :: "js_error \<Rightarrow> js_error + ctx list" where
  "search_catch err =
     (case error_message err of
        None \<Rightarrow> Inl err
      | Some m \<Rightarrow> if m \<noteq> [] \<and> js_includes m ''Not found'' then Inr [] else Inl err)"

text \<open>
  \<open>searchOwnerKnowledge(ownerId, query, limit = 3)\<close>: the embedding of the query and the
  search are both inside the \<open>try\<close>.
\<close>

definition searchOwnerKnowledge :: "env \<Rightarrow> string \<Rightarrow> string \<Rightarrow> nat \<Rightarrow> js_error + ctx list" where
  "searchOwnerKnowledge e owner query limit =
     (case generateEmbedding e query of
        Inl err \<Rightarrow> search_catch err
      | Inr queryEmbedding \<Rightarrow>
          (case qdrant_search e (collectionName owner) queryEmbedding limit of
             Inl err \<Rightarrow> search_catch err
           | Inr searchResult \<Rightarrow> Inr (map ctx_of_hit searchResult)))"

text \<open>
  \<open>xs.slice(-n)\<close>: the last \<open>n\<close> entries, and the whole array for \<open>n = 0\<close>, where \<open>-0\<close>
  is the start of the array. \<open>conversationHistory.slice(-10)\<close> is \<open>last_n 10\<close>.
\<close>

definition last_n :: "nat \<Rightarrow> 'a list \<Rightarrow> 'a list" where
  "last_n n xs = (if n = 0 then xs else drop (length xs - n) xs)"

definition recentHistory :: "message list \<Rightarrow> (role \<times> string) list" where
  "recentHistory conversationHistory =
     map (\<lambda>msg. (if m_from msg = User then RoleUser else RoleAssistant, m_text msg))
       (last_n 10 conversationHistory)"

text \<open>
  \<open>generateAiResponse(userMessage, context, conversationHistory, websiteUrl)\<close>: throws
  when the API key is missing, rethrows what the request throws, and returns the text of
  the first choice.
\<close>

definition generateAiResponse ::
  "env \<Rightarrow> attempt \<Rightarrow> string \<Rightarrow> ctx list \<Rightarrow> message list \<Rightarrow> string option \<Rightarrow> js_error + string" where
  "generateAiResponse e a userMessage context conversationHistory website =
     (if \<not> OPENAI_API_KEY e
      then Inl (Error (Some ''OPENAI_API_KEY not set in environment variables''))
      else openai_chat e a
             \<lparr>rq_context = context, rq_website = orNull website,
              rq_history = recentHistory conversationHistory, rq_user = userMessage\<rparr>)"

text \<open>What \<open>getAiResponseWithContext\<close> returns.\<close>

record ai_result =
  response :: string
  contextUsed :: bool
  websiteUrl :: "string option"
  sources :: "source list"
  error :: "string option"

definition source_of_ctx :: "ctx \<Rightarrow> source" where
  "source_of_ctx c = \<lparr>fileName = c_fileName c, sourceType = c_sourceType c,
                      relevanceScore = c_score c\<rparr>"

text \<open>The fallback of \<open>getAiResponseWithContext\<close>: its outer \<open>catch\<close>.\<close>

definition fallbackResponse :: "env \<Rightarrow> server \<Rightarrow> string \<Rightarrow> string \<Rightarrow> message list \<Rightarrow> js_error + ai_result" where
  "fallbackResponse e s owner userMessage conversationHistory =
     (let website = getOwnerWebsite e s Fallback owner
      in case generateAiResponse e Fallback userMessage [] conversationHistory website of
           Inr reply \<Rightarrow>
             Inr \<lparr>response = reply, contextUsed = False, websiteUrl = website, sources = [],
                  error = Some ''Could not access knowledge base, using general AI knowledge''\<rparr>
         | Inl _ \<Rightarrow> Inl (Error (Some ''Failed to generate AI response'')))"

definition getAiResponseWithContext ::
  "env \<Rightarrow> server \<Rightarrow> string \<Rightarrow> string \<Rightarrow> message list \<Rightarrow> js_error + ai_result" where
  "getAiResponseWithContext e s owner userMessage conversationHistory =
     (let website = getOwnerWebsite e s Primary owner
      in case searchOwnerKnowledge e owner userMessage 3 of
           Inl _ \<Rightarrow> fallbackResponse e s owner userMessage conversationHistory
         | Inr context \<Rightarrow>
             (case generateAiResponse e Primary userMessage context conversationHistory website of
                Inl _ \<Rightarrow> fallbackResponse e s owner userMessage conversationHistory
              | Inr aiResponse \<Rightarrow>
                  Inr \<lparr>response = aiResponse, contextUsed = (0 < length context),
                       websiteUrl = website, sources = map source_of_ctx context,
                       error = None\<rparr>))"

section \<open>AI takeover state (functions/aiChatHandler.js)\<close>

text \<open>
  \<open>shouldAiRespond\<close>:
  \<^verbatim>\<open>
  if (!aiStateCollection) return true; // Default: AI is active
  try {
    const state = await aiStateCollection.findOne({ userId });
    if (!state) { return true; }
    return state.aiActive !== false;
  } catch (error) {
    return true; // Default to AI active on error
  }
  \<close>
\<close>

definition shouldAiRespond :: "env \<Rightarrow> server \<Rightarrow> string \<Rightarrow> bool" where
  "shouldAiRespond e s user =
     (if \<not> aiStateCollection s then True
      else if fails e AiStateFind then True
      else (case db_ai_chat_state s user of
              None \<Rightarrow> True
            | Some state \<Rightarrow> aiActive state \<noteq> Some False))"

text \<open>
  \<open>setAiState\<close>: \<open>updateOne({ userId }, { $set: { aiActive, lastUpdated } }, { upsert: true })\<close>,
  skipped without a collection, and an exception of the update is caught.
\<close>

definition setAiState :: "env \<Rightarrow> server \<Rightarrow> string \<Rightarrow> bool \<Rightarrow> server" where
  "setAiState e s user isActive =
     (if \<not> aiStateCollection s then s
      else if fails e AiStateUpdate then s
      else s\<lparr>db_ai_chat_state :=
               (db_ai_chat_state s)(user \<mapsto> \<lparr>aiActive = Some isActive, lastUpdated = now e\<rparr>)\<rparr>)"

definition deactivateAiForUser :: "env \<Rightarrow> server \<Rightarrow> string \<Rightarrow> server" where
  "deactivateAiForUser e s user = setAiState e s user False"

definition activateAiForUser :: "env \<Rightarrow> server \<Rightarrow> string \<Rightarrow> server" where
  "activateAiForUser e s user = setAiState e s user True"

definition handleAdminMessage :: "env \<Rightarrow> server \<Rightarrow> string \<Rightarrow> server" where
  "handleAdminMessage e s user = deactivateAiForUser e s user"

definition resetAiForUser :: "env \<Rightarrow> server \<Rightarrow> string \<Rightarrow> server" where
  "resetAiForUser e s user = activateAiForUser e s user"

text \<open>
  \<open>getConversationHistory(userId, limit = 10)\<close>: \<open>[]\<close> without a collection, without a
  document and on an exception, otherwise \<open>chat.conversation.slice(-limit)\<close>.
\<close>

definition getConversationHistory :: "env \<Rightarrow> server \<Rightarrow> string \<Rightarrow> nat \<Rightarrow> message list" where
  "getConversationHistory e s user limit =
     (if \<not> ai_chatsCollection s then []
      else if fails e HistoryFind then []
      else (case db_chats s user of
              None \<Rightarrow> []
            | Some chat \<Rightarrow> last_n limit (conversation chat)))"

text \<open>A message object with the three fields every message has.\<close>

definition base_message :: "origin \<Rightarrow> string \<Rightarrow> nat \<Rightarrow> message" where
  "base_message f t time =
     \<lparr>m_from = f, m_text = t, m_ts = time, m_userId = None, m_ownerId = None,
      m_username = None, m_useremail = None, m_userphone = None,
      m_contextUsed = None, m_sources = None, m_error = False\<rparr>"

text \<open>The object \<open>processUserMessage\<close> returns from its \<open>catch\<close>.\<close>

definition apology :: "env \<Rightarrow> string \<Rightarrow> message" where
  "apology e user =
     (base_message Ai
        ''I apologize, but I'm having trouble processing your message right now. Please try again or wait for our team to assist you.''
        (now e))
     \<lparr>m_userId := Some user, m_error := True\<rparr>"

text \<open>\<open>aiMessageObj\<close>, which \<open>processUserMessage\<close> stores, and the object it returns.\<close>

definition aiMessageObj :: "env \<Rightarrow> ai_result \<Rightarrow> message" where
  "aiMessageObj e r =
     (base_message Ai (response r) (now e))
     \<lparr>m_contextUsed := Some (contextUsed r), m_sources := Some (sources r)\<rparr>"

definition aiReply :: "env \<Rightarrow> string \<Rightarrow> ai_result \<Rightarrow> message" where
  "aiReply e user r = (aiMessageObj e r)\<lparr>m_userId := Some user\<rparr>"

text \<open>
  \<open>updateOne({ userId }, { $push: { conversation: m } })\<close> with no upsert: nothing
  happens without a document.
\<close>

definition push_existing :: "server \<Rightarrow> string \<Rightarrow> message \<Rightarrow> server" where
  "push_existing s user m =
     (case db_chats s user of
        None \<Rightarrow> s
      | Some chat \<Rightarrow>
          s\<lparr>db_chats := (db_chats s)(user \<mapsto> chat\<lparr>conversation := conversation chat @ [m]\<rparr>)\<rparr>)"

text \<open>
  The answer \<open>processUserMessage\<close> generates once the AI is to respond: with the owner's
  knowledge when there is an owner, from general knowledge otherwise.
\<close>

definition generate_result ::
  "env \<Rightarrow> server \<Rightarrow> string \<Rightarrow> string option \<Rightarrow> message list \<Rightarrow> js_error + ai_result" where
  "generate_result e s userMessage owner conversationHistory =
     (case orNull owner of
        Some ow \<Rightarrow> getAiResponseWithContext e s ow userMessage conversationHistory
      | None \<Rightarrow>
          (case generateAiResponse e Primary userMessage [] conversationHistory None of
             Inl err \<Rightarrow> Inl err
           | Inr reply \<Rightarrow>
               Inr \<lparr>response = reply, contextUsed = False, websiteUrl = None, sources = [],
                    error = None\<rparr>))"

text \<open>
  \<open>processUserMessage(userId, userMessage, ownerId)\<close> returns the new state and the object
  it resolves to (\<open>None\<close>: \<open>null\<close>). Every exception inside it is caught and answered by
  the apology.
\<close>

definition processUserMessage ::
  "env \<Rightarrow> server \<Rightarrow> string \<Rightarrow> string \<Rightarrow> string option \<Rightarrow> server \<times> message option" where
  "processUserMessage e s user userMessage owner =
     (if \<not> shouldAiRespond e s user then (s, None)
      else
        let conversationHistory = getConversationHistory e s user 10
        in case generate_result e s userMessage owner conversationHistory of
             Inl _ \<Rightarrow> (s, Some (apology e user))
           | Inr aiResult \<Rightarrow>
               if ai_chatsCollection s
               then (if fails e HandlerAppendAi then (s, Some (apology e user))
                     else (push_existing s user (aiMessageObj e aiResult),
                           Some (aiReply e user aiResult)))
               else (s, Some (aiReply e user aiResult)))"

section \<open>Session router (index.js)\<close>

text \<open>
  \<open>sendToOwnerOrBroadcast(ownerUserId, event, payload)\<close>:
  \<^verbatim>\<open>
  if (ownerUserId && owners.has(ownerUserId)) {
    const ownerSocketId = owners.get(ownerUserId);
    io.to(ownerSocketId).emit(event, payload);
  } else {
    // No specific owner connected - do not broadcast to every owner
  }
  \<close>
  The result is the list of what it emits.
\<close>

definition sendToOwnerOrBroadcast :: "server \<Rightarrow> string option \<Rightarrow> string \<Rightarrow> payload \<Rightarrow> emitted list" where
  "sendToOwnerOrBroadcast s ownerUserId ev p =
     (case orNull ownerUserId of
        None \<Rightarrow> []
      | Some ow \<Rightarrow>
          (case owners s ow of
             None \<Rightarrow> []
           | Some ownerSocketId \<Rightarrow> [\<lparr>room = ownerSocketId, event = ev, payload = p\<rparr>]))"

text \<open>
  A connection, after the handshake has been read: \<open>socket.id\<close>, \<open>query.userId\<close>, and
  \<open>ownerUserId\<close>, which is \<open>query.ownerId || null\<close> or else the \<open>userId\<close> of a verified
  \<open>auth_token\<close> cookie. The role decides which handlers the connection gets.
\<close>

record connection =
  socket_id :: string
  query_userId :: "string option"
  ownerUserId :: "string option"

text \<open>\<open>const uid = userId || socket.id\<close>, with \<open>userId = query.userId || null\<close>.\<close>

definition uid :: "connection \<Rightarrow> string" where
  "uid c = (case orNull (query_userId c) of Some u \<Rightarrow> u | None \<Rightarrow> socket_id c)"

definition meta_of :: "server \<Rightarrow> string \<Rightarrow> meta" where
  "meta_of s u = (case metadataBuffer s u of Some m \<Rightarrow> m | None \<Rightarrow> no_meta)"

definition buffer_of :: "server \<Rightarrow> string \<Rightarrow> message list" where
  "buffer_of s u = (case messagesBuffer s u of Some arr \<Rightarrow> arr | None \<Rightarrow> [])"

text \<open>\<open>doc && doc.ownerId\<close> of \<open>chatsCollection.findOne({ userId: uid })\<close>, when truthy.\<close>

definition doc_ownerId :: "server \<Rightarrow> string \<Rightarrow> string option" where
  "doc_ownerId s u = (case db_chats s u of None \<Rightarrow> None | Some doc \<Rightarrow> orNull (d_ownerId doc))"

text \<open>
  \<open>updateOne({ userId: uid }, { $setOnInsert: { userId: uid, createdAt: new Date() }, ... },
  { upsert: true })\<close>: the update applies to the document, or to a new one.
\<close>

definition new_doc :: "nat \<Rightarrow> chat_doc" where
  "new_doc time =
     \<lparr>createdAt = Some time, conversation = [], d_ownerId = None, d_username = None,
      d_useremail = None, d_userphone = None, lastSeen = None\<rparr>"

definition updateOne_upsert :: "server \<Rightarrow> string \<Rightarrow> nat \<Rightarrow> (chat_doc \<Rightarrow> chat_doc) \<Rightarrow> server" where
  "updateOne_upsert s u time upd =
     s\<lparr>db_chats :=
         (db_chats s)(u \<mapsto> upd (case db_chats s u of None \<Rightarrow> new_doc time | Some doc \<Rightarrow> doc))\<rparr>"

text \<open>
  The owner of a user, as the connection handler and the message handler of a user both
  resolve it: the owner of the connection, else the owner in the metadata buffer, else
  (with a database) the owner of the stored document; an exception of the lookup is
  ignored.
  \<^verbatim>\<open>
  let targetOwnerId = ownerUserId || null;
  if (!targetOwnerId) {
    const meta = metadataBuffer.get(uid) || {};
    targetOwnerId = meta.ownerId || null;
  }
  if (!targetOwnerId && chatsCollection) {
    try {
      const doc = await chatsCollection.findOne({ userId: uid });
      if (doc && doc.ownerId) targetOwnerId = doc.ownerId;
    } catch(e) { /* ignore */ }
  }
  \<close>
\<close>

definition resolveOwner :: "env \<Rightarrow> site \<Rightarrow> server \<Rightarrow> connection \<Rightarrow> string option" where
  "resolveOwner e lookup s c =
     (case orNull (ownerUserId c) of
        Some ow \<Rightarrow> Some ow
      | None \<Rightarrow>
          (case orNull (ownerId (meta_of s (uid c))) of
             Some ow \<Rightarrow> Some ow
           | None \<Rightarrow>
               if chatsCollection s \<and> \<not> fails e lookup then doc_ownerId s (uid c) else None))"

subsection \<open>Connections of owners\<close>

definition owner_connect :: "server \<Rightarrow> connection \<Rightarrow> server" where
  "owner_connect s c =
     (case orNull (ownerUserId c) of
        None \<Rightarrow> s
      | Some ow \<Rightarrow> s\<lparr>owners := (owners s)(ow \<mapsto> socket_id c)\<rparr>)"

definition owner_disconnect :: "server \<Rightarrow> connection \<Rightarrow> server" where
  "owner_disconnect s c =
     (case orNull (ownerUserId c) of
        None \<Rightarrow> s
      | Some ow \<Rightarrow>
          if owners s ow = Some (socket_id c) then s\<lparr>owners := (owners s)(ow := None)\<rparr> else s)"

subsection \<open>A user connects\<close>

definition user_connect :: "env \<Rightarrow> server \<Rightarrow> connection \<Rightarrow> server \<times> emitted list" where
  "user_connect e s c =
     (let u = uid c;
          s1 = s\<lparr>users := (users s)(u \<mapsto> socket_id c),
                 messagesBuffer :=
                   (if messagesBuffer s u = None then (messagesBuffer s)(u \<mapsto> [])
                    else messagesBuffer s)\<rparr>
      in case resolveOwner e ConnectFindOwner s1 c of
           None \<Rightarrow> (s1, [])
         | Some targetOwner \<Rightarrow>
             (if chatsCollection s1 \<and> \<not> fails e ConnectSaveOwner
              then updateOne_upsert s1 u (now e) (\<lambda>doc. doc\<lparr>d_ownerId := Some targetOwner\<rparr>)
              else s1,
              sendToOwnerOrBroadcast s1 (Some targetOwner) ''user:connected'' (UserIdP u)))"

subsection \<open>A user disconnects\<close>

text \<open>
  The owner the disconnect handler stores when the metadata buffer names none: the
  \<open>ownerId\<close> of the last message of an owner in the message buffer.
  \<^verbatim>\<open>
  for (let i = (conv.length - 1); i >= 0; i--) {
    if (conv[i].from === 'owner' && conv[i].ownerId) { ownerId = conv[i].ownerId; break; }
  }
  \<close>
\<close>

definition last_owner :: "message list \<Rightarrow> string option" where
  "last_owner conv =
     (case List.find (\<lambda>m. m_from m = Owner \<and> truthy (m_ownerId m)) (rev conv) of
        None \<Rightarrow> None
      | Some m \<Rightarrow> m_ownerId m)"

definition user_disconnect :: "env \<Rightarrow> server \<Rightarrow> connection \<Rightarrow> server \<times> emitted list" where
  "user_disconnect e s c =
     (let u = uid c;
          s1 = s\<lparr>users := (users s)(u := None)\<rparr>;
          m = meta_of s1 u;
          notifyOwner =
            (case orNull (ownerId m) of
               Some ow \<Rightarrow> Some ow
             | None \<Rightarrow>
                 if chatsCollection s1 \<and> \<not> fails e DisconnectFindOwner then doc_ownerId s1 u
                 else None);
          out = (case notifyOwner of
                   None \<Rightarrow> []
                 | Some ow \<Rightarrow> sendToOwnerOrBroadcast s1 (Some ow) ''user:disconnected'' (UserIdP u));
          conv = buffer_of s1 u;
          stored = (case orNull (ownerId m) of Some ow \<Rightarrow> Some ow | None \<Rightarrow> last_owner conv);
          s2 = (if chatsCollection s1 \<and> \<not> fails e DisconnectSave
                then updateOne_upsert s1 u (now e)
                       (\<lambda>doc. doc\<lparr>d_ownerId := orNull stored,
                                   d_username := orNull (username m),
                                   d_useremail := orNull (useremail m),
                                   d_userphone := orNull (userphone m),
                                   lastSeen := Some (now e)\<rparr>)
                else s1)
      in (s2\<lparr>messagesBuffer := (messagesBuffer s2)(u := None),
              metadataBuffer := (metadataBuffer s2)(u := None)\<rparr>,
          out))"

subsection \<open>A user sends a message\<close>

text \<open>
  The handler runs in two parts. The first part resolves the owner and reads the metadata
  buffer; when there is an owner, the buffer names neither \<open>username\<close>, \<open>useremail\<close> nor
  \<open>userphone\<close>, and there is a database, it awaits \<open>chatsCollection.findOne\<close> to load
  the metadata. What it has computed by then is a \<open>pending\<close>: the text, the owner, the
  metadata it read, whether it awaits the load, and the document the load is to return:
  the one stored when the call is made.
  \<^verbatim>\<open>
  const text = (payload && payload.text) || '';
  ... targetOwnerId ...
  if (targetOwnerId) {
    let meta = metadataBuffer.get(uid) || {};
    if ((!meta.username && !meta.useremail && !meta.userphone) && chatsCollection) {
      try {
        const doc = await chatsCollection.findOne({ userId: uid });
  \<close>
\<close>

record pending =
  p_text :: string
  p_target :: "string option"
  p_meta :: meta
  p_load :: bool
  p_doc :: "chat_doc option"

definition user_message_begin :: "env \<Rightarrow> server \<Rightarrow> connection \<Rightarrow> string option \<Rightarrow> pending" where
  "user_message_begin e s c given_text =
     (let targetOwnerId = resolveOwner e MessageFindOwner s c;
          m = meta_of s (uid c)
      in \<lparr>p_text = (case given_text of None \<Rightarrow> [] | Some t \<Rightarrow> t),
          p_target = targetOwnerId,
          p_meta = m,
          p_load = (targetOwnerId \<noteq> None
                    \<and> \<not> truthy (username m) \<and> \<not> truthy (useremail m) \<and> \<not> truthy (userphone m)
                    \<and> chatsCollection s),
          p_doc = db_chats s (uid c)\<rparr>)"

text \<open>
  The metadata of the forwarded message: those of the document the load has found (they
  are also written to the buffer), else those read before.
  \<^verbatim>\<open>
  if (doc) {
    meta = { username: doc.username || null, useremail: doc.useremail || null,
             userphone: doc.userphone || null, ownerId: doc.ownerId || null };
    metadataBuffer.set(uid, meta);
  }
  \<close>
\<close>

definition meta_of_doc :: "chat_doc \<Rightarrow> meta" where
  "meta_of_doc doc =
     \<lparr>username = orNull (d_username doc), useremail = orNull (d_useremail doc),
      userphone = orNull (d_userphone doc), ownerId = orNull (d_ownerId doc)\<rparr>"

definition loaded_doc :: "env \<Rightarrow> pending \<Rightarrow> chat_doc option" where
  "loaded_doc e p = (if p_load p \<and> \<not> fails e MessageLoadMetadata then p_doc p else None)"

text \<open>
  The forward of the message to the owner: nothing without an owner, else
  \<open>sendToOwnerOrBroadcast(targetOwnerId, 'message', messagePayload)\<close>.
\<close>

definition forward_user_message :: "env \<Rightarrow> server \<Rightarrow> string \<Rightarrow> pending \<Rightarrow> server \<times> emitted list" where
  "forward_user_message e s u p =
     (case p_target p of
        None \<Rightarrow> (s, [])
      | Some targetOwnerId \<Rightarrow>
          let doc = loaded_doc e p;
              m = (case doc of None \<Rightarrow> p_meta p | Some d \<Rightarrow> meta_of_doc d);
              s1 = (case doc of
                      None \<Rightarrow> s
                    | Some d \<Rightarrow> s\<lparr>metadataBuffer := (metadataBuffer s)(u \<mapsto> m)\<rparr>);
              messagePayload =
                (base_message User (p_text p) (now e))
                \<lparr>m_userId := Some u, m_username := orNull (username m),
                 m_useremail := orNull (useremail m), m_userphone := orNull (userphone m)\<rparr>
          in (s1, sendToOwnerOrBroadcast s1 (Some targetOwnerId) ''message'' (MessageP messagePayload)))"

text \<open>
  The message goes to the buffer and, with a database, to the stored conversation:
  \<^verbatim>\<open>
  $setOnInsert: { userId: uid, createdAt: new Date() },
  $set: { ownerId: targetOwnerId || null },
  $push: { conversation: msgObj }
  \<close>
  The same update stores the reply of the AI; \<open>append_site\<close> is the place of the call.
\<close>

definition append_message :: "env \<Rightarrow> site \<Rightarrow> server \<Rightarrow> string \<Rightarrow> string option \<Rightarrow> message \<Rightarrow> server" where
  "append_message e append_site s u targetOwnerId msgObj =
     (let s1 = s\<lparr>messagesBuffer := (messagesBuffer s)(u \<mapsto> buffer_of s u @ [msgObj])\<rparr>
      in if chatsCollection s1 \<and> \<not> fails e append_site
         then updateOne_upsert s1 u (now e)
                (\<lambda>doc. doc\<lparr>d_ownerId := orNull targetOwnerId,
                            conversation := conversation doc @ [msgObj]\<rparr>)
         else s1)"

text \<open>
  The AI integration block: nothing when \<open>processUserMessage\<close> returns \<open>null\<close>, else the
  reply goes to the socket of the user (when one is registered), to the owner (when
  there is one), to the buffer and to the stored conversation.
\<close>

definition ai_integration :: "env \<Rightarrow> server \<Rightarrow> string \<Rightarrow> pending \<Rightarrow> server \<times> emitted list" where
  "ai_integration e s u p =
     (case processUserMessage e s u (p_text p) (p_target p) of
        (s1, None) \<Rightarrow> (s1, [])
      | (s1, Some aiResponse) \<Rightarrow>
          (append_message e MessageAppendAi s1 u (p_target p) aiResponse,
           (case orNull (users s1 u) of
              None \<Rightarrow> []
            | Some sid \<Rightarrow> [\<lparr>room = sid, event = ''message'', payload = MessageP aiResponse\<rparr>])
           @ (if truthy (p_target p)
              then sendToOwnerOrBroadcast s1 (p_target p) ''message'' (MessageP aiResponse)
              else [])))"

text \<open>The second part of the handler: everything after the load.\<close>

definition user_message_resume :: "env \<Rightarrow> server \<Rightarrow> connection \<Rightarrow> pending \<Rightarrow> server \<times> emitted list" where
  "user_message_resume e s c p =
     (let u = uid c;
          (s1, out1) = forward_user_message e s u p;
          s2 = append_message e MessageAppendUser s1 u (p_target p)
                 (base_message User (p_text p) (now e));
          (s3, out3) = ai_integration e s2 u p
      in (s3, out1 @ out3))"

text \<open>The handler when nothing else runs while it awaits.\<close>

definition user_message :: "env \<Rightarrow> server \<Rightarrow> connection \<Rightarrow> string option \<Rightarrow> server \<times> emitted list" where
  "user_message e s c given_text =
     user_message_resume e s c (user_message_begin e s c given_text)"

subsection \<open>An owner sends a message\<close>

definition owner_message ::
  "env \<Rightarrow> server \<Rightarrow> connection \<Rightarrow> string option \<Rightarrow> string \<Rightarrow> server \<times> emitted list" where
  "owner_message e s c payload_userId t =
     (case orNull payload_userId of
        None \<Rightarrow> (s, [])
      | Some u \<Rightarrow>
          let s1 = handleAdminMessage e s u;
              sender = (case orNull (ownerUserId c) of Some ow \<Rightarrow> ow | None \<Rightarrow> socket_id c);
              msgObj = (base_message Owner t (now e))\<lparr>m_ownerId := Some sender\<rparr>;
              to_user =
                (case orNull (users s1 u) of
                   None \<Rightarrow> []
                 | Some sid \<Rightarrow>
                     [\<lparr>room = sid, event = ''message'',
                       payload = MessageP (msgObj\<lparr>m_userId := Some u\<rparr>)\<rparr>]);
              s2 = s1\<lparr>messagesBuffer := (messagesBuffer s1)(u \<mapsto> buffer_of s1 u @ [msgObj])\<rparr>;
              s3 = (if chatsCollection s2 \<and> \<not> fails e OwnerAppend
                    then updateOne_upsert s2 u (now e)
                           (\<lambda>doc. doc\<lparr>d_ownerId := Some sender,
                                       conversation := conversation doc @ [msgObj]\<rparr>)
                    else s2);
              echo = (\<lambda>targetOwnerId.
                        sendToOwnerOrBroadcast s3 targetOwnerId ''message''
                          (MessageP ((base_message Owner t (now e))
                                       \<lparr>m_userId := Some u, m_ownerId := targetOwnerId\<rparr>)));
              to_owner =
                (case orNull (ownerUserId c) of
                   Some ow \<Rightarrow> echo (Some ow)
                 | None \<Rightarrow>
                     if \<not> chatsCollection s3 then echo None
                     else if fails e OwnerFindOwner then []
                     else echo (doc_ownerId s3 u))
          in (s3, to_user @ to_owner))"

subsection \<open>Metadata\<close>

text \<open>
  \<open>setMetadata\<close> on a socket. An exception of the update leaves the handler before the
  notification.
\<close>

definition set_metadata ::
  "env \<Rightarrow> server \<Rightarrow> string option \<Rightarrow> meta \<Rightarrow> server \<times> emitted list" where
  "set_metadata e s payload_userId given =
     (case orNull payload_userId of
        None \<Rightarrow> (s, [])
      | Some u \<Rightarrow>
          let m = \<lparr>username = orNull (username given), useremail = orNull (useremail given),
                   userphone = orNull (userphone given), ownerId = orNull (ownerId given)\<rparr>;
              s1 = s\<lparr>metadataBuffer := (metadataBuffer s)(u \<mapsto> m)\<rparr>;
              notify = (if truthy (ownerId given)
                        then sendToOwnerOrBroadcast s1 (ownerId given) ''metadata:updated''
                               (MetadataP u m)
                        else [])
          in if \<not> chatsCollection s1 then (s1, notify)
             else if fails e SetMetadataSave then (s1, [])
             else (updateOne_upsert s1 u (now e)
                     (\<lambda>doc. doc\<lparr>d_username := username m, d_useremail := useremail m,
                                 d_userphone := userphone m, d_ownerId := ownerId m\<rparr>),
                   notify))"

text \<open>
  \<open>POST /chats/:userId/metadata\<close>: the same update, announced to the room \<open>owners\<close>,
  which every owner's socket has joined.
\<close>

definition http_metadata ::
  "env \<Rightarrow> server \<Rightarrow> string \<Rightarrow> meta \<Rightarrow> server \<times> emitted list" where
  "http_metadata e s u given =
     (let m = \<lparr>username = orNull (username given), useremail = orNull (useremail given),
               userphone = orNull (userphone given), ownerId = orNull (ownerId given)\<rparr>;
          s1 = s\<lparr>metadataBuffer := (metadataBuffer s)(u \<mapsto> m)\<rparr>;
          notify = [\<lparr>room = ''owners'', event = ''metadata:updated'', payload = MetadataP u m\<rparr>]
      in if \<not> chatsCollection s1 then (s1, notify)
         else if fails e SetMetadataSave then (s1, [])
         else (updateOne_upsert s1 u (now e)
                 (\<lambda>doc. doc\<lparr>d_username := username m, d_useremail := useremail m,
                             d_userphone := userphone m, d_ownerId := ownerId m\<rparr>),
               notify))"

subsection \<open>Events\<close>

text \<open>
  What the server handles: the connection and disconnection of a user or of an owner,
  a message of a user or of an owner, a metadata update on a socket or over HTTP, and
  \<open>POST /api/ai/reset/:userId\<close>. Each handler runs in the environment of its own time,
  and \<open>step\<close> runs it to its end before the next event.
\<close>

datatype event =
    UserConnect connection
  | UserDisconnect connection
  | UserMessage connection "string option"
  | OwnerConnect connection
  | OwnerDisconnect connection
  | OwnerMessage connection "string option" string
  | SetMetadata "string option" meta
  | HttpMetadata string meta
  | ResetAi string

fun step :: "server \<Rightarrow> env \<times> event \<Rightarrow> server \<times> emitted list" where
  "step s (e, UserConnect c) = user_connect e s c"
| "step s (e, UserDisconnect c) = user_disconnect e s c"
| "step s (e, UserMessage c t) = user_message e s c t"
| "step s (e, OwnerConnect c) = (owner_connect s c, [])"
| "step s (e, OwnerDisconnect c) = (owner_disconnect s c, [])"
| "step s (e, OwnerMessage c u t) = owner_message e s c u t"
| "step s (e, SetMetadata u m) = set_metadata e s u m"
| "step s (e, HttpMetadata u m) = http_metadata e s u m"
| "step s (e, ResetAi u) = (resetAiForUser e s u, [])"

fun run :: "server \<Rightarrow> (env \<times> event) list \<Rightarrow> server" where
  "run s [] = s"
| "run s (x # xs) = run (fst (step s x)) xs"

text \<open>
  Handlers that overlap. A message handler that awaits the load of the metadata is
  suspended, and the handlers of later events run before it resumes. \<open>Arrive\<close> runs the
  first part of the message handler, and the second part at once when it need not await
  the load; \<open>Resume\<close> runs the second part of the oldest suspended handler; \<open>Handle\<close>
  runs any other event to its end. The other awaits of the handlers are not points of
  interleaving here.
\<close>

datatype action =
    Arrive env connection "string option"
  | Resume env
  | Handle env event

fun interleave ::
  "server \<times> (connection \<times> pending) list \<Rightarrow> action list \<Rightarrow> server \<times> (connection \<times> pending) list" where
  "interleave sp [] = sp"
| "interleave (s, suspended) (Arrive e c t # acts) =
     (let p = user_message_begin e s c t
      in if p_load p then interleave (s, suspended @ [(c, p)]) acts
         else interleave (fst (user_message_resume e s c p), suspended) acts)"
| "interleave (s, []) (Resume e # acts) = interleave (s, []) acts"
| "interleave (s, (c, p) # suspended) (Resume e # acts) =
     interleave (fst (user_message_resume e s c p), suspended) acts"
| "interleave (s, suspended) (Handle e ev # acts) =
     interleave (fst (step s (e, ev)), suspended) acts"

section \<open>Properties the theorems state\<close>

text \<open>
  The number of iterations of the chunking loop from \<open>start\<close> with a stride \<open>d > 0\<close> over a
  text of length \<open>len\<close>: the least \<open>n\<close> with \<open>start + n * d \<ge> len\<close>.
\<close>

definition iterations :: "int \<Rightarrow> int \<Rightarrow> int \<Rightarrow> nat" where
  "iterations len start d = nat ((len - start + d - 1) div d)"

text \<open>
  The chunks cover the text when the chunks start \<open>stride\<close> apart and every index of the
  text lies in a chunk that holds the text's character at it.
\<close>

definition covers :: "'a list list \<Rightarrow> nat \<Rightarrow> 'a list \<Rightarrow> bool" where
  "covers chunks stride text =
     (\<forall>j < length text. \<exists>i < length chunks.
        i * stride \<le> j \<and> j < i * stride + length (chunks ! i) \<and> chunks ! i ! (j - i * stride) = text ! j)"

text \<open>
  Consecutive chunks overlap by \<open>k\<close>: the last \<open>k\<close> characters of a chunk are the first
  \<open>k\<close> characters of the next one.
\<close>

definition overlap_by :: "'a list list \<Rightarrow> nat \<Rightarrow> bool" where
  "overlap_by chunks k =
     (\<forall>i. Suc i < length chunks \<longrightarrow>
        k \<le> length (chunks ! i) \<and> k \<le> length (chunks ! Suc i) \<and>
        drop (length (chunks ! i) - k) (chunks ! i) = take k (chunks ! Suc i))"

text \<open>
  Consecutive chunks start \<open>stride\<close> apart and share what the earlier one holds from there
  on: the first \<open>k\<close> characters of the later chunk, or all of it when it is shorter.
\<close>

definition overlap_upto :: "'a list list \<Rightarrow> nat \<Rightarrow> nat \<Rightarrow> bool" where
  "overlap_upto chunks stride k =
     (\<forall>i. Suc i < length chunks \<longrightarrow> drop stride (chunks ! i) = take k (chunks ! Suc i))"

text \<open>The stored conversation of a user: empty without a document.\<close>

definition stored_conversation :: "server \<Rightarrow> string \<Rightarrow> message list" where
  "stored_conversation s u = (case db_chats s u of None \<Rightarrow> [] | Some doc \<Rightarrow> conversation doc)"

text \<open>An owner's message to user \<open>u\<close>, and a reset of the AI for user \<open>u\<close>.\<close>

fun is_takeover :: "string \<Rightarrow> event \<Rightarrow> bool" where
  "is_takeover u (OwnerMessage c given t) = (orNull given = Some u)"
| "is_takeover u _ = False"

fun is_reset :: "string \<Rightarrow> event \<Rightarrow> bool" where
  "is_reset u (ResetAi u') = (u' = u)"
| "is_reset u _ = False"

text \<open>What an emission carries is a message of the given origin.\<close>

definition carries :: "origin \<Rightarrow> emitted \<Rightarrow> bool" where
  "carries f x = (case payload x of MessageP m \<Rightarrow> m_from m = f | _ \<Rightarrow> False)"

text \<open>The messages of users in a conversation, in its order.\<close>

definition from_user :: "message list \<Rightarrow> message list" where
  "from_user conv = filter (\<lambda>m. m_from m = User) conv"

text \<open>
  A takeover is recorded for a user: the state collection is connected and the record
  of the user says \<open>aiActive: false\<close>.
\<close>

definition takeover_recorded :: "server \<Rightarrow> string \<Rightarrow> bool" where
  "takeover_recorded s u =
     (aiStateCollection s \<and>
      (case db_ai_chat_state s u of None \<Rightarrow> False | Some state \<Rightarrow> aiActive state = Some False))"

text \<open>
  The messages of user \<open>u\<close> among the events, in their order: what the message handler
  stores for each (\<open>msgObj\<close>).
\<close>

fun user_messages :: "string \<Rightarrow> (env \<times> event) list \<Rightarrow> message list" where
  "user_messages u [] = []"
| "user_messages u ((e, UserMessage c t) # evs) =
     (if uid c = u
      then base_message User (case t of None \<Rightarrow> [] | Some v \<Rightarrow> v) (now e) # user_messages u evs
      else user_messages u evs)"
| "user_messages u (_ # evs) = user_messages u evs"

section \<open>Concrete inputs\<close>

text \<open>
  An environment in which no call fails: the API key is set, the embedding is some
  vector, Qdrant finds nothing, and the completion service answers \<open>Hello\<close>.
\<close>

definition quiet :: env where
  "quiet =
     \<lparr>now = 0, fails = (\<lambda>_. False), OPENAI_API_KEY = True,
      openai_embeddings = (\<lambda>_. Inr []),
      openai_chat = (\<lambda>_ _. Inr ''Hello''),
      qdrant_search = (\<lambda>_ _ _. Inr []),
      qdrant_getCollection = (\<lambda>_. Inr \<lparr>points_count = Some 0, vectors_count = Some 0\<rparr>),
      qdrant_deleteCollection = (\<lambda>_. Inr True)\<rparr>"

text \<open>What the code expects of Qdrant for a collection that does not exist.\<close>

definition not_found :: js_error where
  "not_found = Error (Some ''Not found: Collection owner_o1_knowledge does not exist'')"

text \<open>A server with its database connected and empty, and nobody connected.\<close>

definition idle :: server where
  "idle =
     \<lparr>users = Map.empty, owners = Map.empty, messagesBuffer = Map.empty,
      metadataBuffer = Map.empty, chatsCollection = True, ai_chatsCollection = True,
      aiStateCollection = True, db_chats = Map.empty, db_ai_chat_state = Map.empty,
      db_knowledgebase = Map.empty\<rparr>"

text \<open>A server that never reached its database.\<close>

definition offline :: server where
  "offline = idle\<lparr>chatsCollection := False, ai_chatsCollection := False,
                   aiStateCollection := False\<rparr>"

text \<open>
  The connection of user \<open>u1\<close> who declares owner \<open>A\<close>, the connection of the same user
  who declares no owner, and the connections of the owners \<open>A\<close> and \<open>B\<close>.
\<close>

definition alice :: connection where
  "alice = \<lparr>socket_id = ''s1'', query_userId = Some ''u1'', ownerUserId = Some ''A''\<rparr>"

definition visitor :: connection where
  "visitor = \<lparr>socket_id = ''s4'', query_userId = Some ''u1'', ownerUserId = None\<rparr>"

definition owner_A :: connection where
  "owner_A = \<lparr>socket_id = ''s2'', query_userId = None, ownerUserId = Some ''A''\<rparr>"

definition owner_B :: connection where
  "owner_B = \<lparr>socket_id = ''s3'', query_userId = None, ownerUserId = Some ''B''\<rparr>"

text \<open>Metadata that name the user and owner \<open>A\<close>, and metadata that name owner \<open>B\<close>.\<close>

definition bob :: meta where
  "bob = \<lparr>username = Some ''bob'', useremail = None, userphone = None, ownerId = Some ''A''\<rparr>"

definition to_B :: meta where
  "to_B = \<lparr>username = None, useremail = None, userphone = None, ownerId = Some ''B''\<rparr>"

section \<open>Theorems: the chunking of the ingestion pipeline\<close>

lemma chunk_at_nonneg:
  "0 \<le> s \<Longrightarrow> 0 \<le> c \<Longrightarrow> chunk_at t c s = take (nat c) (drop (nat s) t)"
  by (auto simp: chunk_at_def js_slice_def Let_def min_def max_def nat_add_distrib)

lemma iterations_done: "0 < d \<Longrightarrow> \<not> start < len \<Longrightarrow> iterations len start d = 0"
proof -
  assume d: "0 < d" and "\<not> start < len"
  then have "len - start + d - 1 < d" by simp
  then have "(len - start + d - 1) div d \<le> 0"
    using d by (cases "0 \<le> len - start + d - 1") (simp_all add: div_pos_pos_trivial div_neg_pos_less0 less_imp_le)
  then show ?thesis by (simp add: iterations_def)
qed

lemma iterations_step: "0 < d \<Longrightarrow> start < len \<Longrightarrow> iterations len start d = Suc (iterations len (start + d) d)"
proof -
  assume d: "0 < d" and lt: "start < len"
  have e: "len - start + d - 1 = (len - (start + d) + d - 1) + d" by simp
  have dn: "d \<noteq> 0" using d by simp
  have cnt: "(len - start + d - 1) div d = (len - (start + d) + d - 1) div d + 1"
    unfolding e by (rule div_add_self2[OF dn])
  have nn: "0 \<le> (len - (start + d) + d - 1) div d"
    using lt d by (simp add: pos_imp_zdiv_nonneg_iff)
  show ?thesis unfolding iterations_def using cnt nn by simp
qed

lemma upt_shift: "map f [0..<Suc n] = f 0 # map (\<lambda>k. f (Suc k)) [0..<n]"
  by (simp add: upt_conv_Cons map_Suc_upt[symmetric] del: upt_Suc)

lemma chunk_loop_closed:
  assumes d: "0 < chunkSize - overlap"
  shows "chunk_loop t chunkSize overlap start chunks =
    Some (chunks @ map (\<lambda>k. chunk_at t chunkSize (start + int k * (chunkSize - overlap)))
                   [0..<iterations (int (length t)) start (chunkSize - overlap)])"
proof (induction "nat (int (length t) - start)" arbitrary: start chunks rule: less_induct)
  case less
  show ?case
  proof (cases "start < int (length t)")
    case False
    then show ?thesis
      by (subst chunk_loop.simps) (simp add: iterations_done[OF d])
  next
    case True
    have lt: "nat (int (length t) - (start + (chunkSize - overlap))) < nat (int (length t) - start)"
      using True d by simp
    have unfold: "chunk_loop t chunkSize overlap start chunks =
        chunk_loop t chunkSize overlap (start + (chunkSize - overlap)) (chunks @ [chunk_at t chunkSize start])"
      by (subst chunk_loop.simps) (simp add: True)
    have shift: "map (\<lambda>k. chunk_at t chunkSize (start + int k * (chunkSize - overlap)))
             [0..<Suc (iterations (int (length t)) (start + (chunkSize - overlap)) (chunkSize - overlap))] =
          chunk_at t chunkSize start #
          map (\<lambda>k. chunk_at t chunkSize (start + (chunkSize - overlap) + int k * (chunkSize - overlap)))
             [0..<iterations (int (length t)) (start + (chunkSize - overlap)) (chunkSize - overlap)]"
      by (subst upt_shift) (simp add: algebra_simps)
    show ?thesis
      unfolding unfold less(1)[OF lt] iterations_step[OF d True] shift by simp
  qed
qed

lemma chunk_loop_diverges:
  assumes "chunk_loop t chunkSize overlap start chunks = Some r"
  shows "\<not> (chunkSize \<le> overlap \<and> start < int (length t))"
proof (rule chunk_loop.raw_induct
    [where P = "\<lambda>t chunkSize overlap start chunks r. \<not> (chunkSize \<le> overlap \<and> start < int (length t))",
     OF _ assms])
  fix loop :: "'a list \<Rightarrow> int \<Rightarrow> int \<Rightarrow> int \<Rightarrow> 'a list list \<Rightarrow> 'a list list option"
  fix t :: "'a list" and chunkSize overlap start :: int and chunks r :: "'a list list"
  assume IH: "\<And>t chunkSize overlap start chunks r. loop t chunkSize overlap start chunks = Some r
      \<Longrightarrow> \<not> (chunkSize \<le> overlap \<and> start < int (length t))"
  assume body: "(if start < int (length t)
      then loop t chunkSize overlap (start + (chunkSize - overlap))
            (chunks @ [chunk_at t chunkSize start])
      else Some chunks) = Some r"
  show "\<not> (chunkSize \<le> overlap \<and> start < int (length t))"
  proof
    assume a: "chunkSize \<le> overlap \<and> start < int (length t)"
    with body have "loop t chunkSize overlap (start + (chunkSize - overlap))
            (chunks @ [chunk_at t chunkSize start]) = Some r"
      by simp
    from IH[OF this] a show False by simp
  qed
qed

text \<open>
  Claim C10. With \<open>overlap < chunkSize\<close> the loop of \<open>splitTextIntoChunks\<close> ends for every
  text: the start index grows by \<open>chunkSize - overlap\<close> in each iteration, so the chunks
  are those at \<open>0\<close>, \<open>chunkSize - overlap\<close>, \<open>2 * (chunkSize - overlap)\<close>, ... below the
  length of the text. The empty text gives the empty list of chunks, whatever the
  parameters. With \<open>overlap \<ge> chunkSize\<close> and a text that is not empty the loop does not
  return.
\<close>

theorem splitTextIntoChunks_terminates:
  fixes t :: "'a list"
  shows
  "(overlap < chunkSize \<longrightarrow>
      splitTextIntoChunks t chunkSize overlap =
        Some (map (\<lambda>k. chunk_at t chunkSize (int k * (chunkSize - overlap)))
                [0..<iterations (int (length t)) 0 (chunkSize - overlap)]))
   \<and> splitTextIntoChunks ([] :: 'a list) chunkSize overlap = Some []
   \<and> (chunkSize \<le> overlap \<and> t \<noteq> [] \<longrightarrow> splitTextIntoChunks t chunkSize overlap = None)"
proof (intro conjI impI)
  assume "overlap < chunkSize"
  then have "0 < chunkSize - overlap" by simp
  from chunk_loop_closed[OF this, of t 0 "[]"]
  show "splitTextIntoChunks t chunkSize overlap =
        Some (map (\<lambda>k. chunk_at t chunkSize (int k * (chunkSize - overlap)))
                [0..<iterations (int (length t)) 0 (chunkSize - overlap)])"
    by (simp add: splitTextIntoChunks_def)
next
  show "splitTextIntoChunks ([] :: 'a list) chunkSize overlap = Some []"
    unfolding splitTextIntoChunks_def by (subst chunk_loop.simps) simp
next
  assume a: "chunkSize \<le> overlap \<and> t \<noteq> []"
  show "splitTextIntoChunks t chunkSize overlap = None"
  proof (cases "splitTextIntoChunks t chunkSize overlap")
    case None then show ?thesis .
  next
    case (Some r)
    then have "chunk_loop t chunkSize overlap 0 [] = Some r" by (simp add: splitTextIntoChunks_def)
    from chunk_loop_diverges[OF this] a show ?thesis by simp
  qed
qed

theorem splitTextIntoChunks_terminates_witness:
  "splitTextIntoChunks ''abcde'' 3 1 = Some [''abc'', ''cde'', ''e'']
   \<and> splitTextIntoChunks ''ab'' 2 2 = None"
  using splitTextIntoChunks_terminates[of 1 3 "''abcde''"]
        splitTextIntoChunks_terminates[of 2 2 "''ab''"]
  by (simp add: iterations_def chunk_at_def js_slice_def upt_conv_Cons)


lemma iterations_nat: "iterations (int n) 0 800 = (n + 799) div 800"
proof -
  have "(int n - 0 + 800 - 1) div 800 = int ((n + 799) div 800)"
    by (simp add: zdiv_int)
  then show ?thesis by (simp add: iterations_def)
qed

lemma default_chunks:
  "splitTextIntoChunks t 1000 200 =
     Some (map (\<lambda>k. take 1000 (drop (800 * k) t)) [0..<(length t + 799) div 800])"
proof -
  have "\<And>k. chunk_at t 1000 (int k * 800) = take 1000 (drop (800 * k) t)"
    by (subst chunk_at_nonneg) (simp_all add: nat_mult_distrib mult.commute)
  then show ?thesis
    using chunk_loop_closed[where chunkSize = 1000 and overlap = 200 and t = t and start = 0 and chunks = "[]"]
    by (simp add: splitTextIntoChunks_def iterations_nat)
qed

lemma covers_windows:
  "covers (map (\<lambda>k. take 1000 (drop (800 * k) t)) [0..<(length t + 799) div 800]) 800 t"
  unfolding covers_def
proof (intro allI impI)
  fix j assume j: "j < length t"
  let ?i = "j div 800"
  have i: "?i < (length t + 799) div 800" using j by arith
  have lo: "?i * 800 \<le> j" by simp
  have hi: "j - ?i * 800 < 800" by arith
  have inside: "j - ?i * 800 < length (drop (800 * ?i) t)" using j by (simp; arith)
  have len: "j < ?i * 800 + length (take 1000 (drop (800 * ?i) t))"
    using j by (simp; arith)
  have val: "take 1000 (drop (800 * ?i) t) ! (j - ?i * 800) = t ! j"
    using hi inside lo by (simp add: mult.commute)
  show "\<exists>i<length (map (\<lambda>k. take 1000 (drop (800 * k) t)) [0..<(length t + 799) div 800]).
          i * 800 \<le> j \<and>
          j < i * 800 + length (map (\<lambda>k. take 1000 (drop (800 * k) t)) [0..<(length t + 799) div 800] ! i) \<and>
          map (\<lambda>k. take 1000 (drop (800 * k) t)) [0..<(length t + 799) div 800] ! i ! (j - i * 800) = t ! j"
    using i lo len val by (intro exI[of _ ?i]) simp
qed

lemma overlap_windows:
  "overlap_upto (map (\<lambda>k. take 1000 (drop (800 * k) t)) [0..<n]) 800 200"
  unfolding overlap_upto_def
  by (auto simp: drop_take add.commute)

text \<open>
  Claim C7, as amended. With a window of 1000 and an overlap of 200 the function returns
  \<open>\<lceil>L / 800\<rceil>\<close> chunks for a text of length \<open>L\<close>; chunk \<open>i\<close> is the window of at most
  1000 characters from index \<open>800 * i\<close>; every index of the text lies in a chunk; and
  what a chunk holds from the start of the next one on is the first 200 characters of
  the next one, or all of the next one when it is shorter than 200.
\<close>

theorem splitTextIntoChunks_covers:
  "\<exists>chunks. splitTextIntoChunks t 1000 200 = Some chunks
     \<and> length chunks = (length t + 799) div 800
     \<and> (\<forall>i < length chunks. chunks ! i = take 1000 (drop (800 * i) t))
     \<and> covers chunks 800 t
     \<and> overlap_upto chunks 800 200"
  by (rule exI[of _ "map (\<lambda>k. take 1000 (drop (800 * k) t)) [0..<(length t + 799) div 800]"])
     (simp add: default_chunks covers_windows overlap_windows)

theorem splitTextIntoChunks_covers_witness:
  "\<exists>chunks. splitTextIntoChunks (replicate 2500 (CHR ''x'')) 1000 200 = Some chunks
     \<and> length chunks = 4
     \<and> covers chunks 800 (replicate 2500 (CHR ''x''))
     \<and> overlap_upto chunks 800 200"
  using splitTextIntoChunks_covers[of "replicate 2500 (CHR ''x'')"] by auto

text \<open>
  Claim C7, as stated, fails on a text of 900 characters: the chunks are the whole text
  and its last 100 characters, so the two consecutive chunks overlap by 100, not by 200.
\<close>

theorem splitTextIntoChunks_overlap_counterexample:
  "splitTextIntoChunks (replicate 900 (CHR ''a'')) 1000 200 =
     Some [replicate 900 (CHR ''a''), replicate 100 (CHR ''a'')]
   \<and> \<not> overlap_by [replicate 900 (CHR ''a''), replicate 100 (CHR ''a'')] 200"
proof
  show "splitTextIntoChunks (replicate 900 (CHR ''a'')) 1000 200 =
     Some [replicate 900 (CHR ''a''), replicate 100 (CHR ''a'')]"
    by (simp add: default_chunks upt_conv_Cons)
  show "\<not> overlap_by [replicate 900 (CHR ''a''), replicate 100 (CHR ''a'')] 200"
  proof
    assume "overlap_by [replicate 900 (CHR ''a''), replicate 100 (CHR ''a'')] 200"
    then have "200 \<le> length ([replicate 900 (CHR ''a''), replicate 100 (CHR ''a'')] ! Suc 0)"
      unfolding overlap_by_def by (drule_tac x = 0 in spec) simp
    then show False by simp
  qed
qed

section \<open>Theorems: the knowledge store and the responder\<close>

lemma includes_not_found: "js_includes ''Not found: Collection owner_o1_knowledge does not exist'' ''Not found''"
  by simp

text \<open>
  \<open>deleteOwnerResources\<close> raises nothing of its own: it ends in an error only when
  \<open>deleteCollection\<close> throws, and then in that error.
\<close>

lemma deleteOwnerResources_rethrows:
  "qdrant_deleteCollection e (collectionName owner) = Inl err \<Longrightarrow> deleteOwnerResources e owner = Inl err"
  by (simp add: deleteOwnerResources_def)

lemma deleteOwnerResources_error:
  "deleteOwnerResources e owner = Inl err \<Longrightarrow> qdrant_deleteCollection e (collectionName owner) = Inl err"
  by (simp add: deleteOwnerResources_def split: sum.splits)



lemma search_catch_not_found:
  "js_includes m ''Not found'' \<Longrightarrow> search_catch (Error (Some m)) = Inr []"
  by (cases m) (auto simp: search_catch_def)

lemma searchOwnerKnowledge_empty:
  assumes "generateEmbedding e query = Inr v"
    and "qdrant_search e (collectionName owner) v limit = Inr []
         \<or> (\<exists>m. qdrant_search e (collectionName owner) v limit = Inl (Error (Some m))
                 \<and> js_includes m ''Not found'')"
  shows "searchOwnerKnowledge e owner query limit = Inr []"
  using assms by (auto simp: searchOwnerKnowledge_def search_catch_not_found)

text \<open>
  Claim C8, as amended. When the query has been embedded and Qdrant answers the search
  with no point or with an error whose message includes \<open>Not found\<close>,
  \<open>searchOwnerKnowledge\<close> returns the empty list, and \<open>getAiResponseWithContext\<close> returns
  the text of its first generation with \<open>contextUsed = false\<close> and no sources; when that
  generation fails, the text of the fallback generation with the same two fields and the
  error flag; and when both fail it throws \<open>Failed to generate AI response\<close>.
\<close>

theorem no_namespace_no_context:
  assumes "generateEmbedding e userMessage = Inr v"
    and "qdrant_search e (collectionName owner) v 3 = Inr []
         \<or> (\<exists>m. qdrant_search e (collectionName owner) v 3 = Inl (Error (Some m))
                 \<and> js_includes m ''Not found'')"
  shows "searchOwnerKnowledge e owner userMessage 3 = Inr []
    \<and> (case generateAiResponse e Primary userMessage [] history (getOwnerWebsite e s Primary owner) of
          Inr reply \<Rightarrow>
            getAiResponseWithContext e s owner userMessage history =
              Inr \<lparr>response = reply, contextUsed = False,
                   websiteUrl = getOwnerWebsite e s Primary owner, sources = [], error = None\<rparr>
        | Inl _ \<Rightarrow>
            (case generateAiResponse e Fallback userMessage [] history (getOwnerWebsite e s Fallback owner) of
               Inr reply \<Rightarrow>
                 getAiResponseWithContext e s owner userMessage history =
                   Inr \<lparr>response = reply, contextUsed = False,
                        websiteUrl = getOwnerWebsite e s Fallback owner, sources = [],
                        error = Some ''Could not access knowledge base, using general AI knowledge''\<rparr>
             | Inl _ \<Rightarrow>
                 getAiResponseWithContext e s owner userMessage history =
                   Inl (Error (Some ''Failed to generate AI response''))))"
proof -
  have empty: "searchOwnerKnowledge e owner userMessage 3 = Inr []"
    using assms by (rule searchOwnerKnowledge_empty)
  show ?thesis
    by (simp add: empty getAiResponseWithContext_def fallbackResponse_def Let_def split: sum.split)
qed

theorem no_namespace_no_context_witness:
  "searchOwnerKnowledge (quiet\<lparr>qdrant_search := (\<lambda>_ _ _. Inl not_found)\<rparr>) ''o1'' ''hours'' 3 = Inr []
   \<and> getAiResponseWithContext (quiet\<lparr>qdrant_search := (\<lambda>_ _ _. Inl not_found)\<rparr>) idle ''o1'' ''hours'' [] =
       Inr \<lparr>response = ''Hello'', contextUsed = False, websiteUrl = None, sources = [], error = None\<rparr>"
  using no_namespace_no_context[where e = "quiet\<lparr>qdrant_search := (\<lambda>_ _ _. Inl not_found)\<rparr>"
      and userMessage = "''hours''" and v = "[]" and owner = "''o1''" and history = "[]" and s = idle]
  by (simp add: generateEmbedding_def generateAiResponse_def getOwnerWebsite_def quiet_def not_found_def
      idle_def orNull_def)

text \<open>
  Claim C8, as stated, fails when the query cannot be embedded: without an API key the
  search of an owner with no namespace throws, and so does \<open>getAiResponseWithContext\<close>.
\<close>

theorem no_namespace_counterexample:
  "searchOwnerKnowledge (quiet\<lparr>OPENAI_API_KEY := False, qdrant_search := (\<lambda>_ _ _. Inl not_found)\<rparr>) ''o1'' ''hours'' 3 =
     Inl (Error (Some ''OPENAI_API_KEY not set in environment variables''))
   \<and> getAiResponseWithContext (quiet\<lparr>OPENAI_API_KEY := False, qdrant_search := (\<lambda>_ _ _. Inl not_found)\<rparr>)
       idle ''o1'' ''hours'' [] = Inl (Error (Some ''Failed to generate AI response''))"
  by (simp add: searchOwnerKnowledge_def search_catch_def generateEmbedding_def
      getAiResponseWithContext_def fallbackResponse_def generateAiResponse_def Let_def quiet_def)

text \<open>
  Claim C9. When \<open>searchOwnerKnowledge\<close> throws, \<open>getAiResponseWithContext\<close> generates
  again with an empty context: it returns the text of that generation with
  \<open>contextUsed = false\<close>, no sources and the error flag, and it throws only when that
  generation fails too.
\<close>

theorem retrieval_failure_falls_back:
  assumes "searchOwnerKnowledge e owner userMessage 3 = Inl err"
  shows "(case generateAiResponse e Fallback userMessage [] history (getOwnerWebsite e s Fallback owner) of
            Inr reply \<Rightarrow>
              getAiResponseWithContext e s owner userMessage history =
                Inr \<lparr>response = reply, contextUsed = False,
                     websiteUrl = getOwnerWebsite e s Fallback owner, sources = [],
                     error = Some ''Could not access knowledge base, using general AI knowledge''\<rparr>
          | Inl _ \<Rightarrow>
              getAiResponseWithContext e s owner userMessage history =
                Inl (Error (Some ''Failed to generate AI response'')))"
  using assms
  by (simp add: getAiResponseWithContext_def fallbackResponse_def Let_def split: sum.split)

theorem retrieval_failure_falls_back_witness:
  "searchOwnerKnowledge (quiet\<lparr>openai_embeddings := (\<lambda>_. Inl (Error (Some ''timeout'')))\<rparr>) ''o1'' ''hours'' 3
     = Inl (Error (Some ''timeout''))
   \<and> getAiResponseWithContext (quiet\<lparr>openai_embeddings := (\<lambda>_. Inl (Error (Some ''timeout'')))\<rparr>)
       idle ''o1'' ''hours'' [] =
       Inr \<lparr>response = ''Hello'', contextUsed = False, websiteUrl = None, sources = [],
            error = Some ''Could not access knowledge base, using general AI knowledge''\<rparr>"
proof -
  have f: "searchOwnerKnowledge (quiet\<lparr>openai_embeddings := (\<lambda>_. Inl (Error (Some ''timeout'')))\<rparr>) ''o1'' ''hours'' 3
     = Inl (Error (Some ''timeout''))"
    by (simp add: searchOwnerKnowledge_def search_catch_def generateEmbedding_def quiet_def)
  from retrieval_failure_falls_back[OF f, where history = "[]" and s = idle] f show ?thesis
    by (simp add: generateAiResponse_def getOwnerWebsite_def quiet_def idle_def orNull_def)
qed

section \<open>Theorems: the AI takeover state\<close>

text \<open>What the handlers leave as it is.\<close>

lemma setAiState_frame:
  "aiStateCollection (setAiState e s u b) = aiStateCollection s"
  "chatsCollection (setAiState e s u b) = chatsCollection s"
  "ai_chatsCollection (setAiState e s u b) = ai_chatsCollection s"
  "db_chats (setAiState e s u b) = db_chats s"
  "users (setAiState e s u b) = users s"
  "owners (setAiState e s u b) = owners s"
  "messagesBuffer (setAiState e s u b) = messagesBuffer s"
  "metadataBuffer (setAiState e s u b) = metadataBuffer s"
  by (simp_all add: setAiState_def)

lemma updateOne_upsert_frame:
  "aiStateCollection (updateOne_upsert s u t f) = aiStateCollection s"
  "db_ai_chat_state (updateOne_upsert s u t f) = db_ai_chat_state s"
  "chatsCollection (updateOne_upsert s u t f) = chatsCollection s"
  "ai_chatsCollection (updateOne_upsert s u t f) = ai_chatsCollection s"
  "users (updateOne_upsert s u t f) = users s"
  "owners (updateOne_upsert s u t f) = owners s"
  "messagesBuffer (updateOne_upsert s u t f) = messagesBuffer s"
  "metadataBuffer (updateOne_upsert s u t f) = metadataBuffer s"
  by (simp_all add: updateOne_upsert_def)

lemma push_existing_frame:
  "aiStateCollection (push_existing s u m) = aiStateCollection s"
  "db_ai_chat_state (push_existing s u m) = db_ai_chat_state s"
  "chatsCollection (push_existing s u m) = chatsCollection s"
  "ai_chatsCollection (push_existing s u m) = ai_chatsCollection s"
  "users (push_existing s u m) = users s"
  "owners (push_existing s u m) = owners s"
  "messagesBuffer (push_existing s u m) = messagesBuffer s"
  "metadataBuffer (push_existing s u m) = metadataBuffer s"
  by (simp_all add: push_existing_def split: option.split)

lemma processUserMessage_frame:
  "aiStateCollection (fst (processUserMessage e s u t ow)) = aiStateCollection s"
  "db_ai_chat_state (fst (processUserMessage e s u t ow)) = db_ai_chat_state s"
  "chatsCollection (fst (processUserMessage e s u t ow)) = chatsCollection s"
  "ai_chatsCollection (fst (processUserMessage e s u t ow)) = ai_chatsCollection s"
  "users (fst (processUserMessage e s u t ow)) = users s"
  "owners (fst (processUserMessage e s u t ow)) = owners s"
  "messagesBuffer (fst (processUserMessage e s u t ow)) = messagesBuffer s"
  "metadataBuffer (fst (processUserMessage e s u t ow)) = metadataBuffer s"
  by (simp_all add: processUserMessage_def Let_def push_existing_frame split: sum.split)

lemma append_message_frame:
  "aiStateCollection (append_message e a s u ow m) = aiStateCollection s"
  "db_ai_chat_state (append_message e a s u ow m) = db_ai_chat_state s"
  "chatsCollection (append_message e a s u ow m) = chatsCollection s"
  "ai_chatsCollection (append_message e a s u ow m) = ai_chatsCollection s"
  "users (append_message e a s u ow m) = users s"
  "owners (append_message e a s u ow m) = owners s"
  "metadataBuffer (append_message e a s u ow m) = metadataBuffer s"
  by (simp_all add: append_message_def Let_def updateOne_upsert_frame)

lemma forward_user_message_frame:
  "aiStateCollection (fst (forward_user_message e s u p)) = aiStateCollection s"
  "db_ai_chat_state (fst (forward_user_message e s u p)) = db_ai_chat_state s"
  "chatsCollection (fst (forward_user_message e s u p)) = chatsCollection s"
  "ai_chatsCollection (fst (forward_user_message e s u p)) = ai_chatsCollection s"
  "db_chats (fst (forward_user_message e s u p)) = db_chats s"
  "users (fst (forward_user_message e s u p)) = users s"
  "owners (fst (forward_user_message e s u p)) = owners s"
  "messagesBuffer (fst (forward_user_message e s u p)) = messagesBuffer s"
  by (simp_all add: forward_user_message_def Let_def split: option.split)

lemma ai_integration_frame:
  "aiStateCollection (fst (ai_integration e s u p)) = aiStateCollection s"
  "db_ai_chat_state (fst (ai_integration e s u p)) = db_ai_chat_state s"
  "chatsCollection (fst (ai_integration e s u p)) = chatsCollection s"
  "ai_chatsCollection (fst (ai_integration e s u p)) = ai_chatsCollection s"
  "users (fst (ai_integration e s u p)) = users s"
  "owners (fst (ai_integration e s u p)) = owners s"
  "metadataBuffer (fst (ai_integration e s u p)) = metadataBuffer s"
  using processUserMessage_frame[of e s u "p_text p" "p_target p"]
  by (auto simp: ai_integration_def append_message_frame split: prod.split option.split)

lemma user_message_resume_frame:
  "aiStateCollection (fst (user_message_resume e s c p)) = aiStateCollection s"
  "db_ai_chat_state (fst (user_message_resume e s c p)) = db_ai_chat_state s"
  "chatsCollection (fst (user_message_resume e s c p)) = chatsCollection s"
  "ai_chatsCollection (fst (user_message_resume e s c p)) = ai_chatsCollection s"
  "users (fst (user_message_resume e s c p)) = users s"
  "owners (fst (user_message_resume e s c p)) = owners s"
  by (simp_all add: user_message_resume_def Let_def split_beta ai_integration_frame
      append_message_frame forward_user_message_frame)

lemma user_connect_frame:
  "aiStateCollection (fst (user_connect e s c)) = aiStateCollection s"
  "db_ai_chat_state (fst (user_connect e s c)) = db_ai_chat_state s"
  "chatsCollection (fst (user_connect e s c)) = chatsCollection s"
  "owners (fst (user_connect e s c)) = owners s"
  by (simp_all add: user_connect_def Let_def updateOne_upsert_frame split: option.split)

lemma user_disconnect_frame:
  "aiStateCollection (fst (user_disconnect e s c)) = aiStateCollection s"
  "db_ai_chat_state (fst (user_disconnect e s c)) = db_ai_chat_state s"
  "chatsCollection (fst (user_disconnect e s c)) = chatsCollection s"
  "owners (fst (user_disconnect e s c)) = owners s"
  by (simp_all add: user_disconnect_def Let_def updateOne_upsert_frame)

lemma set_metadata_frame:
  "aiStateCollection (fst (set_metadata e s u m)) = aiStateCollection s"
  "db_ai_chat_state (fst (set_metadata e s u m)) = db_ai_chat_state s"
  "chatsCollection (fst (set_metadata e s u m)) = chatsCollection s"
  "owners (fst (set_metadata e s u m)) = owners s"
  by (simp_all add: set_metadata_def Let_def updateOne_upsert_frame split: option.split)

lemma http_metadata_frame:
  "aiStateCollection (fst (http_metadata e s u m)) = aiStateCollection s"
  "db_ai_chat_state (fst (http_metadata e s u m)) = db_ai_chat_state s"
  "chatsCollection (fst (http_metadata e s u m)) = chatsCollection s"
  "owners (fst (http_metadata e s u m)) = owners s"
  by (simp_all add: http_metadata_def Let_def updateOne_upsert_frame)

lemma owner_message_frame:
  "aiStateCollection (fst (owner_message e s c u t)) = aiStateCollection s"
  "chatsCollection (fst (owner_message e s c u t)) = chatsCollection s"
  "owners (fst (owner_message e s c u t)) = owners s"
  by (simp_all add: owner_message_def Let_def updateOne_upsert_frame handleAdminMessage_def
      deactivateAiForUser_def setAiState_frame split: option.split)

lemma owner_message_ai_state:
  "db_ai_chat_state (fst (owner_message e s c given t)) =
     (case orNull given of
        None \<Rightarrow> db_ai_chat_state s
      | Some u \<Rightarrow> db_ai_chat_state (setAiState e s u False))"
  by (simp add: owner_message_def Let_def updateOne_upsert_frame handleAdminMessage_def
      deactivateAiForUser_def split: option.split)

text \<open>What an event does to the AI state.\<close>

lemma step_aiStateCollection: "aiStateCollection (fst (step s x)) = aiStateCollection s"
proof (cases x)
  case (Pair e ev)
  then show ?thesis
    by (cases ev)
       (simp_all add: user_connect_frame user_disconnect_frame user_message_def
          user_message_resume_frame owner_connect_def owner_disconnect_def owner_message_frame
          set_metadata_frame http_metadata_frame resetAiForUser_def activateAiForUser_def
          setAiState_frame split: option.split)
qed

lemma step_ai_state:
  "db_ai_chat_state (fst (step s (e, ev))) =
     (case ev of
        OwnerMessage c given t \<Rightarrow>
          (case orNull given of None \<Rightarrow> db_ai_chat_state s
           | Some u \<Rightarrow> db_ai_chat_state (setAiState e s u False))
      | ResetAi u \<Rightarrow> db_ai_chat_state (setAiState e s u True)
      | _ \<Rightarrow> db_ai_chat_state s)"
  by (cases ev)
     (simp_all add: user_connect_frame user_disconnect_frame user_message_def
        user_message_resume_frame owner_connect_def owner_disconnect_def owner_message_ai_state
        set_metadata_frame http_metadata_frame resetAiForUser_def activateAiForUser_def
        split: option.split)

lemma shouldAiRespond_iff:
  "shouldAiRespond e s u = (fails e AiStateFind \<or> \<not> takeover_recorded s u)"
  by (auto simp: shouldAiRespond_def takeover_recorded_def split: option.split)

lemma step_keeps_ai_on:
  assumes "\<not> is_takeover u ev" and "\<not> takeover_recorded s u"
  shows "\<not> takeover_recorded (fst (step s (e, ev))) u"
  using assms unfolding takeover_recorded_def step_aiStateCollection step_ai_state
  by (cases ev) (auto simp: setAiState_def split: option.splits if_splits)

lemma step_keeps_ai_off:
  assumes "\<not> is_reset u ev" and "takeover_recorded s u"
  shows "takeover_recorded (fst (step s (e, ev))) u"
  using assms unfolding takeover_recorded_def step_aiStateCollection step_ai_state
  by (cases ev) (auto simp: setAiState_def split: option.splits if_splits)

lemma run_keeps_ai_on:
  "\<forall>x\<in>set evs. \<not> is_takeover u (snd x) \<Longrightarrow> \<not> takeover_recorded s u
   \<Longrightarrow> \<not> takeover_recorded (run s evs) u"
proof (induction evs arbitrary: s)
  case Nil
  then show ?case by simp
next
  case (Cons x evs)
  obtain e ev where x: "x = (e, ev)" by (cases x)
  from Cons.prems have "\<not> takeover_recorded (fst (step s (e, ev))) u"
    by (intro step_keeps_ai_on) (simp_all add: x)
  with Cons show ?case by (simp add: x)
qed

lemma run_keeps_ai_off:
  "\<forall>x\<in>set evs. \<not> is_reset u (snd x) \<Longrightarrow> takeover_recorded s u
   \<Longrightarrow> takeover_recorded (run s evs) u"
proof (induction evs arbitrary: s)
  case Nil
  then show ?case by simp
next
  case (Cons x evs)
  obtain e ev where x: "x = (e, ev)" by (cases x)
  from Cons.prems have "takeover_recorded (fst (step s (e, ev))) u"
    by (intro step_keeps_ai_off) (simp_all add: x)
  with Cons show ?case by (simp add: x)
qed

lemma owner_message_records_takeover:
  assumes "aiStateCollection s" and "u \<noteq> []" and "\<not> fails e AiStateUpdate"
  shows "takeover_recorded (fst (step s (e, OwnerMessage c (Some u) t))) u"
  using assms
  by (simp add: takeover_recorded_def owner_message_frame owner_message_ai_state orNull_def
      setAiState_def)

lemma reset_clears_takeover:
  assumes "\<not> fails e AiStateUpdate"
  shows "\<not> takeover_recorded (fst (step s (e, ResetAi u))) u"
  using assms
  by (simp add: takeover_recorded_def resetAiForUser_def activateAiForUser_def setAiState_def)

text \<open>
  Claim C1, as amended. (1) For a user with no state record the query answers \<open>true\<close>,
  and it still does after any events among which no owner sends that user a message.
  (2) With the state collection connected and the write of the state succeeding, after
  an owner's message to the user the query answers \<open>false\<close> whenever its read succeeds,
  and it still does after any events among which the AI is not reset for that user:
  messages of users among them. (3) After a reset whose write succeeds the query answers
  \<open>true\<close> again, until an owner sends the user a message.
\<close>

theorem ai_authority:
  "(db_ai_chat_state s u = None \<and> (\<forall>x\<in>set evs. \<not> is_takeover u (snd x))
      \<longrightarrow> shouldAiRespond e (run s evs) u)
   \<and> (aiStateCollection s \<and> u \<noteq> [] \<and> \<not> fails ew AiStateUpdate
        \<and> (\<forall>x\<in>set evs. \<not> is_reset u (snd x)) \<and> \<not> fails e AiStateFind
      \<longrightarrow> \<not> shouldAiRespond e (run (fst (step s (ew, OwnerMessage c (Some u) t))) evs) u)
   \<and> (\<not> fails ew AiStateUpdate \<and> (\<forall>x\<in>set evs. \<not> is_takeover u (snd x))
      \<longrightarrow> shouldAiRespond e (run (fst (step s (ew, ResetAi u))) evs) u)"
proof (intro conjI impI)
  assume a: "db_ai_chat_state s u = None \<and> (\<forall>x\<in>set evs. \<not> is_takeover u (snd x))"
  then have "\<not> takeover_recorded s u" by (simp add: takeover_recorded_def)
  with a have "\<not> takeover_recorded (run s evs) u" by (intro run_keeps_ai_on) simp_all
  then show "shouldAiRespond e (run s evs) u" by (simp add: shouldAiRespond_iff)
next
  assume a: "aiStateCollection s \<and> u \<noteq> [] \<and> \<not> fails ew AiStateUpdate
        \<and> (\<forall>x\<in>set evs. \<not> is_reset u (snd x)) \<and> \<not> fails e AiStateFind"
  then have "takeover_recorded (fst (step s (ew, OwnerMessage c (Some u) t))) u"
    by (intro owner_message_records_takeover) simp_all
  with a have "takeover_recorded (run (fst (step s (ew, OwnerMessage c (Some u) t))) evs) u"
    by (intro run_keeps_ai_off) simp_all
  with a show "\<not> shouldAiRespond e (run (fst (step s (ew, OwnerMessage c (Some u) t))) evs) u"
    by (simp add: shouldAiRespond_iff)
next
  assume a: "\<not> fails ew AiStateUpdate \<and> (\<forall>x\<in>set evs. \<not> is_takeover u (snd x))"
  then have "\<not> takeover_recorded (fst (step s (ew, ResetAi u))) u"
    by (intro reset_clears_takeover) simp
  with a have "\<not> takeover_recorded (run (fst (step s (ew, ResetAi u))) evs) u"
    by (intro run_keeps_ai_on) simp_all
  then show "shouldAiRespond e (run (fst (step s (ew, ResetAi u))) evs) u"
    by (simp add: shouldAiRespond_iff)
qed

theorem ai_authority_witness:
  "shouldAiRespond quiet (run idle [(quiet, UserMessage alice (Some ''hello''))]) ''u1''
   \<and> \<not> shouldAiRespond quiet
        (run (fst (step idle (quiet, OwnerMessage owner_A (Some ''u1'') ''hi'')))
           [(quiet, UserMessage alice (Some ''hello'')), (quiet, UserMessage alice (Some ''anyone?''))])
        ''u1''
   \<and> shouldAiRespond quiet
        (run (fst (step idle (quiet, ResetAi ''u1''))) [(quiet, UserMessage alice (Some ''hello''))])
        ''u1''"
proof -
  have q: "\<not> fails quiet AiStateUpdate" "\<not> fails quiet AiStateFind" by (simp_all add: quiet_def)
  have i: "aiStateCollection idle" "db_ai_chat_state idle ''u1'' = None" by (simp_all add: idle_def)
  show ?thesis
    using ai_authority[where s = idle and u = "''u1''" and e = quiet and ew = quiet
        and evs = "[(quiet, UserMessage alice (Some ''hello''))]"]
      ai_authority[where s = idle and u = "''u1''" and e = quiet and ew = quiet and c = owner_A
        and t = "''hi''"
        and evs = "[(quiet, UserMessage alice (Some ''hello'')), (quiet, UserMessage alice (Some ''anyone?''))]"]
      q i
    by simp
qed

text \<open>
  Claim C1, as stated, fails in two ways. With the state collection of
  \<open>aiChatHandler.js\<close> not connected, the owner's message is stored in the conversation
  and the query still answers \<open>true\<close>. And with the takeover recorded, a query whose
  read throws answers \<open>true\<close>.
\<close>

theorem ai_authority_counterexample:
  "map m_from (stored_conversation
      (fst (step (idle\<lparr>aiStateCollection := False\<rparr>) (quiet, OwnerMessage owner_A (Some ''u1'') ''hi'')))
      ''u1'') = [Owner]
   \<and> shouldAiRespond quiet
        (fst (step (idle\<lparr>aiStateCollection := False\<rparr>) (quiet, OwnerMessage owner_A (Some ''u1'') ''hi'')))
        ''u1''
   \<and> takeover_recorded (fst (step idle (quiet, OwnerMessage owner_A (Some ''u1'') ''hi''))) ''u1''
   \<and> shouldAiRespond (quiet\<lparr>fails := (\<lambda>x. x = AiStateFind)\<rparr>)
        (fst (step idle (quiet, OwnerMessage owner_A (Some ''u1'') ''hi''))) ''u1''"
  by (simp add: owner_message_def handleAdminMessage_def deactivateAiForUser_def setAiState_def
      shouldAiRespond_def takeover_recorded_def stored_conversation_def updateOne_upsert_def
      new_doc_def base_message_def Let_def idle_def quiet_def owner_A_def orNull_def
      buffer_of_def sendToOwnerOrBroadcast_def doc_ownerId_def)

lemma processUserMessage_silent:
  "\<not> shouldAiRespond e s u \<Longrightarrow> processUserMessage e s u t ow = (s, None)"
  by (simp add: processUserMessage_def)

lemma shouldAiRespond_cong:
  "aiStateCollection s' = aiStateCollection s \<Longrightarrow> db_ai_chat_state s' = db_ai_chat_state s
   \<Longrightarrow> shouldAiRespond e s' u = shouldAiRespond e s u"
  by (simp add: shouldAiRespond_def)

lemma ai_integration_silent:
  "\<not> shouldAiRespond e s u \<Longrightarrow> ai_integration e s u p = (s, [])"
  by (simp add: ai_integration_def processUserMessage_silent)

lemma forward_emits_user:
  "\<forall>x\<in>set (snd (forward_user_message e s u p)). carries User x"
  by (auto simp: forward_user_message_def sendToOwnerOrBroadcast_def carries_def base_message_def
      Let_def split: option.splits)

lemma stored_append_message:
  "stored_conversation (append_message e a s u ow m) u =
     stored_conversation s u @ (if chatsCollection s \<and> \<not> fails e a then [m] else [])"
  by (simp add: stored_conversation_def append_message_def updateOne_upsert_def new_doc_def Let_def
      split: option.split)

lemma buffer_append_message:
  "buffer_of (append_message e a s u ow m) u = buffer_of s u @ [m]"
  by (simp add: buffer_of_def append_message_def updateOne_upsert_def Let_def)

lemma stored_forward:
  "stored_conversation (fst (forward_user_message e s u p)) v = stored_conversation s v"
  by (simp add: stored_conversation_def forward_user_message_frame)

lemma buffer_forward:
  "buffer_of (fst (forward_user_message e s u p)) v = buffer_of s v"
  by (simp add: buffer_of_def forward_user_message_frame)

lemma user_message_silent:
  assumes "\<not> shouldAiRespond e s (uid c)"
  shows "user_message e s c t =
     (append_message e MessageAppendUser
        (fst (forward_user_message e s (uid c) (user_message_begin e s c t))) (uid c)
        (p_target (user_message_begin e s c t))
        (base_message User (p_text (user_message_begin e s c t)) (now e)),
      snd (forward_user_message e s (uid c) (user_message_begin e s c t)))"
proof -
  let ?p = "user_message_begin e s c t"
  let ?s1 = "fst (forward_user_message e s (uid c) ?p)"
  let ?s2 = "append_message e MessageAppendUser ?s1 (uid c) (p_target ?p)
               (base_message User (p_text ?p) (now e))"
  have "shouldAiRespond e ?s2 (uid c) = shouldAiRespond e s (uid c)"
    by (rule shouldAiRespond_cong)
       (simp_all add: append_message_frame forward_user_message_frame)
  with assms have "ai_integration e ?s2 (uid c) ?p = (?s2, [])"
    by (simp add: ai_integration_silent)
  then show ?thesis
    by (simp add: user_message_def user_message_resume_def Let_def split_beta)
qed

text \<open>
  Claim C2, as amended. When the state record of the user of a message says
  \<open>aiActive: false\<close>, the state collection is connected and the read of the record
  succeeds, \<open>processUserMessage\<close> returns \<open>null\<close> and leaves the state as it is; and
  the message handler emits nothing but the forward of the user's own message, adds that
  message alone to the message buffer, and adds that message alone to the stored
  conversation (nothing when the database is not connected or the update throws). No
  message of the AI is generated, emitted or stored.
\<close>

theorem takeover_silences_ai:
  assumes "takeover_recorded s (uid c)" and "\<not> fails e AiStateFind"
  shows "processUserMessage e s (uid c) userMessage ow = (s, None)
    \<and> (\<forall>x\<in>set (snd (user_message e s c t)). carries User x)
    \<and> buffer_of (fst (user_message e s c t)) (uid c) =
        buffer_of s (uid c) @ [base_message User (case t of None \<Rightarrow> [] | Some v \<Rightarrow> v) (now e)]
    \<and> stored_conversation (fst (user_message e s c t)) (uid c) =
        stored_conversation s (uid c) @
        (if chatsCollection s \<and> \<not> fails e MessageAppendUser
         then [base_message User (case t of None \<Rightarrow> [] | Some v \<Rightarrow> v) (now e)] else [])"
proof -
  have off: "\<not> shouldAiRespond e s (uid c)"
    using assms by (simp add: shouldAiRespond_iff)
  have ptext: "p_text (user_message_begin e s c t) = (case t of None \<Rightarrow> [] | Some v \<Rightarrow> v)"
    by (simp add: user_message_begin_def Let_def)
  show ?thesis
    using off
    by (simp add: processUserMessage_silent user_message_silent forward_emits_user
        buffer_append_message stored_append_message buffer_forward stored_forward
        forward_user_message_frame ptext)
qed

theorem takeover_silences_ai_witness:
  "takeover_recorded (fst (step idle (quiet, OwnerMessage owner_A (Some ''u1'') ''hi''))) (uid alice)
   \<and> processUserMessage quiet (fst (step idle (quiet, OwnerMessage owner_A (Some ''u1'') ''hi'')))
        (uid alice) ''hello'' (Some ''A'')
      = (fst (step idle (quiet, OwnerMessage owner_A (Some ''u1'') ''hi'')), None)
   \<and> map m_from (stored_conversation
        (fst (user_message quiet (fst (step idle (quiet, OwnerMessage owner_A (Some ''u1'') ''hi'')))
           alice (Some ''hello''))) (uid alice)) = [Owner, User]"
proof -
  let ?s = "fst (step idle (quiet, OwnerMessage owner_A (Some ''u1'') ''hi''))"
  have u: "uid alice = ''u1''" by (simp add: uid_def alice_def orNull_def)
  have off: "takeover_recorded ?s (uid alice)"
    unfolding u
    by (simp add: owner_message_def handleAdminMessage_def deactivateAiForUser_def setAiState_def
      takeover_recorded_def updateOne_upsert_def Let_def idle_def quiet_def owner_A_def orNull_def)
  have before: "map m_from (stored_conversation ?s ''u1'') = [Owner]"
    by (simp add: owner_message_def handleAdminMessage_def deactivateAiForUser_def setAiState_def
      stored_conversation_def updateOne_upsert_def new_doc_def base_message_def Let_def idle_def
      quiet_def owner_A_def orNull_def)
  have conn: "chatsCollection ?s" by (simp add: owner_message_frame idle_def)
  have ok: "\<not> fails quiet MessageAppendUser" "\<not> fails quiet AiStateFind" by (simp_all add: quiet_def)
  from takeover_silences_ai[OF off ok(2), where userMessage = "''hello''" and ow = "Some ''A''" and t = "Some ''hello''"]
    off before conn ok
  show ?thesis by (simp add: u base_message_def)
qed

text \<open>
  Claim C2, as stated, fails when the read of the state throws. The owner has written to
  user \<open>u1\<close> and the takeover is recorded; the user sends \<open>hello\<close> and
  \<open>aiStateCollection.findOne\<close> throws: \<open>shouldAiRespond\<close> catches the exception and
  answers \<open>true\<close>, \<open>processUserMessage\<close> returns a message of the AI, and the stored
  conversation ends with what the AI said, once stored by \<open>processUserMessage\<close> and once
  by the message handler.
\<close>

theorem takeover_silences_ai_counterexample:
  "takeover_recorded (fst (step idle (quiet, OwnerMessage owner_A (Some ''u1'') ''hi''))) ''u1''
   \<and> map_option m_from (snd (processUserMessage (quiet\<lparr>fails := (\<lambda>x. x = AiStateFind)\<rparr>)
        (fst (step idle (quiet, OwnerMessage owner_A (Some ''u1'') ''hi''))) ''u1'' ''hello'' (Some ''A'')))
      = Some Ai
   \<and> map m_from (stored_conversation
        (fst (user_message (quiet\<lparr>fails := (\<lambda>x. x = AiStateFind)\<rparr>)
           (fst (step idle (quiet, OwnerMessage owner_A (Some ''u1'') ''hi'')))
           alice (Some ''hello''))) ''u1'') = [Owner, User, Ai, Ai]"
  by (simp add: owner_message_def handleAdminMessage_def deactivateAiForUser_def setAiState_def
      shouldAiRespond_def takeover_recorded_def stored_conversation_def updateOne_upsert_def
      new_doc_def base_message_def Let_def idle_def quiet_def owner_A_def orNull_def
      buffer_of_def sendToOwnerOrBroadcast_def doc_ownerId_def
      processUserMessage_def getConversationHistory_def generate_result_def
      getAiResponseWithContext_def searchOwnerKnowledge_def generateEmbedding_def
      generateAiResponse_def getOwnerWebsite_def push_existing_def aiMessageObj_def aiReply_def
      user_message_def user_message_resume_def user_message_begin_def forward_user_message_def
      loaded_doc_def append_message_def ai_integration_def resolveOwner_def alice_def uid_def
      meta_of_def no_meta_def truthy_def split_beta last_n_def recentHistory_def
      source_of_ctx_def fallbackResponse_def collectionName_def)

section \<open>Theorems: the session router\<close>

text \<open>Where the emissions of the message handler go.\<close>

lemma sendToOwnerOrBroadcast_room:
  assumes "x \<in> set (sendToOwnerOrBroadcast s ow ev p)"
  shows "\<exists>a. orNull ow = Some a \<and> owners s a = Some (room x) \<and> payload x = p"
proof (cases "orNull ow")
  case None
  with assms show ?thesis by (simp add: sendToOwnerOrBroadcast_def)
next
  case (Some a)
  with assms show ?thesis
    by (cases "owners s a") (simp_all add: sendToOwnerOrBroadcast_def)
qed

lemma sendToOwnerOrBroadcast_absent:
  "orNull ow = Some a \<Longrightarrow> owners s a = None \<Longrightarrow> sendToOwnerOrBroadcast s ow ev p = []"
  by (simp add: sendToOwnerOrBroadcast_def)

lemma resolveOwner_truthy: "resolveOwner e a s c = Some A \<Longrightarrow> orNull (Some A) = Some A"
  by (auto simp: resolveOwner_def doc_ownerId_def orNull_def split: option.splits if_splits)

lemma begin_target: "p_target (user_message_begin e s c t) = resolveOwner e MessageFindOwner s c"
  by (simp add: user_message_begin_def Let_def)

lemma begin_text: "p_text (user_message_begin e s c t) = (case t of None \<Rightarrow> [] | Some v \<Rightarrow> v)"
  by (simp add: user_message_begin_def Let_def)

lemma forward_rooms:
  assumes "x \<in> set (snd (forward_user_message e s u p))" and "p_target p = Some A"
  shows "owners s A = Some (room x) \<and> carries User x"
proof -
  from assms obtain s1 pl where x: "x \<in> set (sendToOwnerOrBroadcast s1 (Some A) ''message'' (MessageP pl))"
    and o: "owners s1 = owners s" and f: "m_from pl = User"
    by (auto simp: forward_user_message_def Let_def base_message_def split: option.splits)
  from sendToOwnerOrBroadcast_room[OF x] o f show ?thesis
    by (auto simp: carries_def orNull_def split: if_splits)
qed

lemma processUserMessage_reply:
  "snd (processUserMessage e s u t ow) = Some r \<Longrightarrow> m_from r = Ai"
  by (auto simp: processUserMessage_def Let_def apology_def aiReply_def aiMessageObj_def
      base_message_def split: if_splits sum.splits)

lemma ai_integration_rooms:
  assumes "x \<in> set (snd (ai_integration e s u p))"
  shows "carries Ai x \<and>
         (orNull (users s u) = Some (room x)
          \<or> (\<exists>a. orNull (p_target p) = Some a \<and> owners s a = Some (room x)))"
proof (cases "processUserMessage e s u (p_text p) (p_target p)")
  case (Pair s1 reply)
  show ?thesis
  proof (cases reply)
    case None
    with Pair assms show ?thesis by (simp add: ai_integration_def)
  next
    case (Some r)
    have ai: "m_from r = Ai"
      using processUserMessage_reply[of e s u "p_text p" "p_target p" r] Pair Some by simp
    have fr: "users s1 = users s" "owners s1 = owners s"
      using processUserMessage_frame(5,6)[of e s u "p_text p" "p_target p"] Pair by simp_all
    from assms Pair Some
    consider "orNull (users s1 u) = Some (room x)" "payload x = MessageP r"
      | "x \<in> set (sendToOwnerOrBroadcast s1 (p_target p) ''message'' (MessageP r))"
      by (auto simp: ai_integration_def split: option.splits if_splits)
    then show ?thesis
    proof cases
      case 1
      with ai fr show ?thesis by (simp add: carries_def)
    next
      case 2
      from sendToOwnerOrBroadcast_room[OF 2] ai fr show ?thesis by (auto simp: carries_def)
    qed
  qed
qed

lemma user_message_out:
  "snd (user_message e s c t) =
     snd (forward_user_message e s (uid c) (user_message_begin e s c t))
     @ snd (ai_integration e
              (append_message e MessageAppendUser
                 (fst (forward_user_message e s (uid c) (user_message_begin e s c t))) (uid c)
                 (p_target (user_message_begin e s c t))
                 (base_message User (p_text (user_message_begin e s c t)) (now e)))
              (uid c) (user_message_begin e s c t))"
  by (simp add: user_message_def user_message_resume_def Let_def split_beta)

lemma user_message_rooms:
  assumes t: "resolveOwner e MessageFindOwner s c = Some A"
    and x: "x \<in> set (snd (user_message e s c t))"
  shows "(carries User x \<and> owners s A = Some (room x))
       \<or> (carries Ai x \<and> (owners s A = Some (room x) \<or> orNull (users s (uid c)) = Some (room x)))"
proof -
  let ?p = "user_message_begin e s c t"
  let ?s2 = "append_message e MessageAppendUser (fst (forward_user_message e s (uid c) ?p)) (uid c)
               (p_target ?p) (base_message User (p_text ?p) (now e))"
  have pt: "p_target ?p = Some A" using t by (simp add: begin_target)
  have tr: "orNull (p_target ?p) = Some A" using resolveOwner_truthy[OF t] pt by simp
  have fr: "users ?s2 = users s" "owners ?s2 = owners s"
    by (simp_all add: append_message_frame forward_user_message_frame)
  from x consider "x \<in> set (snd (forward_user_message e s (uid c) ?p))"
    | "x \<in> set (snd (ai_integration e ?s2 (uid c) ?p))"
    by (auto simp: user_message_out)
  then show ?thesis
  proof cases
    case 1
    from forward_rooms[OF 1 pt] show ?thesis by simp
  next
    case 2
    from ai_integration_rooms[OF 2] tr fr show ?thesis by auto
  qed
qed

text \<open>The handlers do not read the registry of owners but to emit.\<close>

lemma shouldAiRespond_owners: "shouldAiRespond e (s\<lparr>owners := os\<rparr>) u = shouldAiRespond e s u"
  by (simp add: shouldAiRespond_def)

lemma getConversationHistory_owners:
  "getConversationHistory e (s\<lparr>owners := os\<rparr>) u n = getConversationHistory e s u n"
  by (simp add: getConversationHistory_def)

lemma getOwnerWebsite_owners: "getOwnerWebsite e (s\<lparr>owners := os\<rparr>) a ow = getOwnerWebsite e s a ow"
  by (simp add: getOwnerWebsite_def)

lemma fallbackResponse_owners:
  "fallbackResponse e (s\<lparr>owners := os\<rparr>) ow t h = fallbackResponse e s ow t h"
  by (simp add: fallbackResponse_def getOwnerWebsite_owners cong: sum.case_cong)

lemma getAiResponseWithContext_owners:
  "getAiResponseWithContext e (s\<lparr>owners := os\<rparr>) ow t h = getAiResponseWithContext e s ow t h"
  by (simp add: getAiResponseWithContext_def getOwnerWebsite_owners fallbackResponse_owners
      cong: sum.case_cong)

lemma generate_result_owners:
  "generate_result e (s\<lparr>owners := os\<rparr>) t ow h = generate_result e s t ow h"
  by (simp add: generate_result_def getAiResponseWithContext_owners cong: option.case_cong)

lemma push_existing_owners:
  "push_existing (s\<lparr>owners := os\<rparr>) u m = (push_existing s u m)\<lparr>owners := os\<rparr>"
  by (simp add: push_existing_def split: option.split)

lemma processUserMessage_owners:
  "processUserMessage e (s\<lparr>owners := os\<rparr>) u t ow =
     ((fst (processUserMessage e s u t ow))\<lparr>owners := os\<rparr>, snd (processUserMessage e s u t ow))"
  by (simp add: processUserMessage_def shouldAiRespond_owners getConversationHistory_owners
      generate_result_owners push_existing_owners Let_def split: sum.split)

lemma append_message_owners:
  "append_message e a (s\<lparr>owners := os\<rparr>) u ow m = (append_message e a s u ow m)\<lparr>owners := os\<rparr>"
  by (simp add: append_message_def updateOne_upsert_def buffer_of_def Let_def)

lemma forward_owners:
  "fst (forward_user_message e (s\<lparr>owners := os\<rparr>) u p) =
     (fst (forward_user_message e s u p))\<lparr>owners := os\<rparr>"
  by (simp add: forward_user_message_def Let_def split: option.split)

lemma meta_of_owners: "meta_of (s\<lparr>owners := os\<rparr>) u = meta_of s u"
  by (simp add: meta_of_def)

lemma doc_ownerId_owners: "doc_ownerId (s\<lparr>owners := os\<rparr>) u = doc_ownerId s u"
  by (simp add: doc_ownerId_def)

lemma resolveOwner_owners: "resolveOwner e a (s\<lparr>owners := os\<rparr>) c = resolveOwner e a s c"
  by (simp add: resolveOwner_def meta_of_owners doc_ownerId_owners cong: option.case_cong)

lemma begin_owners: "user_message_begin e (s\<lparr>owners := os\<rparr>) c t = user_message_begin e s c t"
  by (simp add: user_message_begin_def resolveOwner_owners meta_of_owners)

lemma ai_integration_owners:
  "fst (ai_integration e (s\<lparr>owners := os\<rparr>) u p) = (fst (ai_integration e s u p))\<lparr>owners := os\<rparr>"
  by (simp add: ai_integration_def processUserMessage_owners append_message_owners
      split: prod.split option.split)

lemma user_message_owners:
  "fst (user_message e (s\<lparr>owners := os\<rparr>) c t) = (fst (user_message e s c t))\<lparr>owners := os\<rparr>"
  by (simp add: user_message_def user_message_resume_def Let_def split_beta begin_owners
      forward_owners append_message_owners ai_integration_owners)

text \<open>What the message handler stores.\<close>

lemma stored_processUserMessage:
  "\<exists>ais. stored_conversation (fst (processUserMessage e s u t ow)) u = stored_conversation s u @ ais
         \<and> (\<forall>m\<in>set ais. m_from m = Ai)"
  by (auto simp: processUserMessage_def Let_def stored_conversation_def push_existing_def
      aiMessageObj_def base_message_def split: sum.split option.split)

lemma stored_ai_integration:
  "\<exists>ais. stored_conversation (fst (ai_integration e s u p)) u = stored_conversation s u @ ais
         \<and> (\<forall>m\<in>set ais. m_from m = Ai)"
proof (cases "processUserMessage e s u (p_text p) (p_target p)")
  case (Pair s1 reply)
  from stored_processUserMessage[of e s u "p_text p" "p_target p"] Pair
  obtain ais where a: "stored_conversation s1 u = stored_conversation s u @ ais"
    "\<forall>m\<in>set ais. m_from m = Ai" by auto
  show ?thesis
  proof (cases reply)
    case None
    with Pair a show ?thesis by (auto simp: ai_integration_def)
  next
    case (Some r)
    have "m_from r = Ai"
      using processUserMessage_reply[of e s u "p_text p" "p_target p" r] Pair Some by simp
    with Pair Some a show ?thesis
      by (auto simp: ai_integration_def stored_append_message)
  qed
qed

lemma stored_user_message_resume:
  "\<exists>ais. stored_conversation (fst (user_message_resume e s c p)) (uid c) =
           stored_conversation s (uid c)
           @ (if chatsCollection s \<and> \<not> fails e MessageAppendUser
              then [base_message User (p_text p) (now e)] else [])
           @ ais
         \<and> (\<forall>m\<in>set ais. m_from m = Ai)"
proof -
  let ?s2 = "append_message e MessageAppendUser (fst (forward_user_message e s (uid c) p)) (uid c)
               (p_target p) (base_message User (p_text p) (now e))"
  from stored_ai_integration[of e ?s2 "uid c" p]
  obtain ais where a: "stored_conversation (fst (ai_integration e ?s2 (uid c) p)) (uid c) =
      stored_conversation ?s2 (uid c) @ ais" "\<forall>m\<in>set ais. m_from m = Ai" by auto
  have "fst (user_message_resume e s c p) = fst (ai_integration e ?s2 (uid c) p)"
    by (simp add: user_message_resume_def Let_def split_beta)
  with a show ?thesis
    by (auto simp: stored_append_message stored_forward forward_user_message_frame)
qed

text \<open>
  Claim C3, as amended. Let the message of a user resolve to owner \<open>A\<close>. An emission
  names a room, and the rooms here are the ids of sockets.
  (1) Everything the handler emits is emitted to the room of the socket registered for
  \<open>A\<close>, but for the reply of the AI, which is also emitted to the room of the user's own
  socket; the user's message itself is emitted to the room of the socket of \<open>A\<close> only.
  (2) Nothing is emitted to the room of a socket registered for another owner, when it
  is neither the socket of \<open>A\<close> nor the user's own.
  (3) When no socket is registered for \<open>A\<close>, the user's message is emitted to nobody.
  (4) What the handler stores does not depend on the registry of owners.
  (5) The stored conversation is the one before, then the user's message when the
  database is connected and the update succeeds, and nothing for it otherwise, and then
  the messages of the AI, if any: those are stored by calls of their own.
\<close>

theorem no_cross_talk:
  assumes "resolveOwner e MessageFindOwner s c = Some A"
  shows "(\<forall>x\<in>set (snd (user_message e s c t)).
            (carries User x \<and> owners s A = Some (room x))
          \<or> (carries Ai x \<and> (owners s A = Some (room x) \<or> orNull (users s (uid c)) = Some (room x))))
    \<and> (\<forall>x\<in>set (snd (user_message e s c t)).
          owners s B = Some sb \<and> owners s A \<noteq> Some sb \<and> orNull (users s (uid c)) \<noteq> Some sb
          \<longrightarrow> room x \<noteq> sb)
    \<and> (owners s A = None \<longrightarrow> (\<forall>x\<in>set (snd (user_message e s c t)). \<not> carries User x))
    \<and> fst (user_message e (s\<lparr>owners := os\<rparr>) c t) = (fst (user_message e s c t))\<lparr>owners := os\<rparr>
    \<and> (\<exists>ais. stored_conversation (fst (user_message e s c t)) (uid c) =
                 stored_conversation s (uid c)
                 @ (if chatsCollection s \<and> \<not> fails e MessageAppendUser
                    then [base_message User (case t of None \<Rightarrow> [] | Some v \<Rightarrow> v) (now e)]
                    else [])
                 @ ais
               \<and> (\<forall>m\<in>set ais. m_from m = Ai))"
proof (intro conjI)
  show rooms: "\<forall>x\<in>set (snd (user_message e s c t)).
            (carries User x \<and> owners s A = Some (room x))
          \<or> (carries Ai x \<and> (owners s A = Some (room x) \<or> orNull (users s (uid c)) = Some (room x)))"
    using user_message_rooms[OF assms] by blast
  show "\<forall>x\<in>set (snd (user_message e s c t)).
          owners s B = Some sb \<and> owners s A \<noteq> Some sb \<and> orNull (users s (uid c)) \<noteq> Some sb
          \<longrightarrow> room x \<noteq> sb"
    using rooms by blast
  show "owners s A = None \<longrightarrow> (\<forall>x\<in>set (snd (user_message e s c t)). \<not> carries User x)"
    using rooms by (auto simp: carries_def split: payload.splits)
  show "fst (user_message e (s\<lparr>owners := os\<rparr>) c t) = (fst (user_message e s c t))\<lparr>owners := os\<rparr>"
    by (rule user_message_owners)
  show "\<exists>ais. stored_conversation (fst (user_message e s c t)) (uid c) =
                 stored_conversation s (uid c)
                 @ (if chatsCollection s \<and> \<not> fails e MessageAppendUser
                    then [base_message User (case t of None \<Rightarrow> [] | Some v \<Rightarrow> v) (now e)]
                    else [])
                 @ ais
               \<and> (\<forall>m\<in>set ais. m_from m = Ai)"
    using stored_user_message_resume[of e s c "user_message_begin e s c t"]
    unfolding user_message_def begin_text .
qed

lemma alice_uid: "uid alice = ''u1''"
  by (simp add: uid_def alice_def orNull_def)

lemma alice_resolve: "resolveOwner e a s alice = Some ''A''"
  by (simp add: resolveOwner_def alice_def orNull_def)

theorem no_cross_talk_witness:
  "''s3'' \<notin> room ` set (snd (user_message quiet
        (fst (user_connect quiet (owner_connect idle owner_B) alice)) alice (Some ''hello'')))
   \<and> filter (carries User) (snd (user_message quiet
        (fst (user_connect quiet (owner_connect idle owner_B) alice)) alice (Some ''hello''))) = []
   \<and> (\<exists>ais. stored_conversation
               (fst (user_message quiet (fst (user_connect quiet (owner_connect idle owner_B) alice))
                  alice (Some ''hello''))) ''u1'' =
             [base_message User ''hello'' 0] @ ais
            \<and> (\<forall>m\<in>set ais. m_from m = Ai))"
proof -
  let ?s = "fst (user_connect quiet (owner_connect idle owner_B) alice)"
  have o: "owners ?s = [''B'' \<mapsto> ''s3'']" "users ?s ''u1'' = Some ''s1''" "chatsCollection ?s"
    "stored_conversation ?s ''u1'' = []"
    by (simp_all add: user_connect_def owner_connect_def owner_B_def idle_def orNull_def
        stored_conversation_def alice_resolve alice_uid Let_def updateOne_upsert_def new_doc_def
        quiet_def) (simp add: alice_def)
  have q: "\<not> fails quiet MessageAppendUser" "now quiet = 0" by (simp_all add: quiet_def)
  note th = no_cross_talk[OF alice_resolve, where e = quiet and s = ?s and t = "Some ''hello''"
      and B = "''B''" and sb = "''s3''"]
  have a: "\<forall>x\<in>set (snd (user_message quiet ?s alice (Some ''hello''))). room x \<noteq> ''s3''"
    using th o by (simp add: alice_uid orNull_def)
  have b: "\<forall>x\<in>set (snd (user_message quiet ?s alice (Some ''hello''))). \<not> carries User x"
    using th o by simp
  have c: "\<exists>ais. stored_conversation (fst (user_message quiet ?s alice (Some ''hello''))) ''u1'' =
             [base_message User ''hello'' 0] @ ais \<and> (\<forall>m\<in>set ais. m_from m = Ai)"
    using th o q by (simp add: alice_uid)
  from a have a': "''s3'' \<notin> room ` set (snd (user_message quiet ?s alice (Some ''hello'')))"
    by (auto simp: image_iff)
  from b have b': "filter (carries User) (snd (user_message quiet ?s alice (Some ''hello''))) = []"
    by (simp add: filter_empty_conv)
  show ?thesis by (rule conjI[OF a' conjI[OF b' c]])
qed

text \<open>
  Claim C3, as stated, fails when the handle \<open>chatsCollection\<close> is not set: the message
  of user \<open>u1\<close> resolves to owner \<open>A\<close>, no socket is registered for \<open>A\<close>, nothing is
  emitted to an owner, and nothing is stored.
\<close>

theorem no_cross_talk_counterexample:
  "resolveOwner quiet MessageFindOwner (fst (step offline (quiet, UserConnect alice))) alice = Some ''A''
   \<and> owners (fst (step offline (quiet, UserConnect alice))) ''A'' = None
   \<and> db_chats (run offline [(quiet, UserConnect alice), (quiet, UserMessage alice (Some ''hello''))]) ''u1''
      = None"
proof -
  have frame: "\<And>e s c t. \<not> chatsCollection s \<Longrightarrow> \<not> ai_chatsCollection s \<Longrightarrow>
      db_chats (fst (user_message e s c t)) = db_chats s"
    by (simp add: user_message_def user_message_resume_def Let_def split_beta ai_integration_def
        append_message_def processUserMessage_def forward_user_message_frame
        split: prod.split option.split sum.split)
  have c: "db_chats (fst (user_connect quiet offline alice)) = Map.empty"
    "\<not> chatsCollection (fst (user_connect quiet offline alice))"
    "\<not> ai_chatsCollection (fst (user_connect quiet offline alice))"
    "owners (fst (user_connect quiet offline alice)) ''A'' = None"
    by (simp_all add: user_connect_def offline_def idle_def Let_def alice_resolve)
  show ?thesis by (simp add: alice_resolve c frame)
qed

section \<open>Theorems: the owner of a user\<close>

lemma orNull_idem: "orNull (orNull x) = orNull x"
  by (simp add: orNull_def split: option.split)

lemma doc_ownerId_truthy: "doc_ownerId s u = Some A \<Longrightarrow> orNull (Some A) = Some A"
  by (auto simp: doc_ownerId_def orNull_def split: option.splits if_splits)

lemma doc_ownerId_cong: "db_chats s' = db_chats s \<Longrightarrow> doc_ownerId s' u = doc_ownerId s u"
  by (simp add: doc_ownerId_def)

lemma doc_ownerId_upsert:
  "doc_ownerId (updateOne_upsert s u time upd) u =
     orNull (d_ownerId (upd (case db_chats s u of None \<Rightarrow> new_doc time | Some doc \<Rightarrow> doc)))"
  by (simp add: doc_ownerId_def updateOne_upsert_def)

lemma doc_ownerId_append:
  "doc_ownerId (append_message e a s u ow m) u =
     (if chatsCollection s \<and> \<not> fails e a then orNull ow else doc_ownerId s u)"
  by (simp add: append_message_def Let_def doc_ownerId_upsert orNull_idem)
     (simp add: doc_ownerId_def)

lemma doc_ownerId_push_existing: "doc_ownerId (push_existing s u m) v = doc_ownerId s v"
  by (simp add: push_existing_def doc_ownerId_def split: option.split)

lemma doc_ownerId_processUserMessage:
  "doc_ownerId (fst (processUserMessage e s u t ow)) v = doc_ownerId s v"
  by (simp add: processUserMessage_def Let_def doc_ownerId_push_existing split: sum.split)

lemma doc_ownerId_ai_integration:
  "doc_ownerId (fst (ai_integration e s u p)) u = doc_ownerId s u
   \<or> doc_ownerId (fst (ai_integration e s u p)) u = orNull (p_target p)"
proof (cases "processUserMessage e s u (p_text p) (p_target p)")
  case (Pair s1 reply)
  have "doc_ownerId s1 u = doc_ownerId s u"
    using doc_ownerId_processUserMessage[of e s u "p_text p" "p_target p" u] Pair by simp
  with Pair show ?thesis
    by (cases reply) (auto simp: ai_integration_def doc_ownerId_append)
qed

lemma doc_ownerId_user_message_resume:
  "doc_ownerId (fst (user_message_resume e s c p)) (uid c) = doc_ownerId s (uid c)
   \<or> doc_ownerId (fst (user_message_resume e s c p)) (uid c) = orNull (p_target p)"
proof -
  let ?s1 = "fst (forward_user_message e s (uid c) p)"
  let ?s2 = "append_message e MessageAppendUser ?s1 (uid c) (p_target p)
               (base_message User (p_text p) (now e))"
  have r: "fst (user_message_resume e s c p) = fst (ai_integration e ?s2 (uid c) p)"
    by (simp add: user_message_resume_def Let_def split_beta)
  have f: "doc_ownerId ?s1 (uid c) = doc_ownerId s (uid c)"
    by (rule doc_ownerId_cong) (simp add: forward_user_message_frame)
  have a: "doc_ownerId ?s2 (uid c) = doc_ownerId s (uid c) \<or> doc_ownerId ?s2 (uid c) = orNull (p_target p)"
    by (simp add: doc_ownerId_append f)
  from doc_ownerId_ai_integration[of e ?s2 "uid c" p] a show ?thesis
    unfolding r by auto
qed

lemma resolveOwner_sticky:
  assumes "doc_ownerId s (uid c) = Some A"
    and "orNull (ownerUserId c) = None \<or> orNull (ownerUserId c) = Some A"
    and "orNull (ownerId (meta_of s (uid c))) = None \<or> orNull (ownerId (meta_of s (uid c))) = Some A"
  shows "resolveOwner e a s c = Some A
       \<or> (resolveOwner e a s c = None \<and> (\<not> chatsCollection s \<or> fails e a))"
  using assms by (auto simp: resolveOwner_def)

lemma user_connect_owner:
  "doc_ownerId (fst (user_connect e s c)) (uid c) =
     (case resolveOwner e ConnectFindOwner s c of
        None \<Rightarrow> doc_ownerId s (uid c)
      | Some T \<Rightarrow> if chatsCollection s \<and> \<not> fails e ConnectSaveOwner then Some T
                  else doc_ownerId s (uid c))"
proof -
  let ?s1 = "s\<lparr>users := (users s)(uid c \<mapsto> socket_id c),
               messagesBuffer := (if messagesBuffer s (uid c) = None
                                  then (messagesBuffer s)(uid c \<mapsto> []) else messagesBuffer s)\<rparr>"
  have r: "resolveOwner e ConnectFindOwner ?s1 c = resolveOwner e ConnectFindOwner s c"
    by (simp add: resolveOwner_def meta_of_def doc_ownerId_def cong: option.case_cong)
  have d: "doc_ownerId ?s1 (uid c) = doc_ownerId s (uid c)"
    by (simp add: doc_ownerId_def)
  show ?thesis
  proof (cases "resolveOwner e ConnectFindOwner s c")
    case None
    with r d show ?thesis by (simp add: user_connect_def Let_def)
  next
    case (Some T)
    from resolveOwner_truthy[OF Some] have "orNull (Some T) = Some T" .
    with Some r d show ?thesis
      by (simp add: user_connect_def Let_def doc_ownerId_upsert)
  qed
qed

text \<open>
  Claim C4, as amended. Let the stored document of a user name owner \<open>A\<close>. When the
  connection of the user declares no owner or declares \<open>A\<close>, and the metadata buffer
  names no owner or names \<open>A\<close>, the stored owner is still \<open>A\<close> after the connection
  handler, and after the message handler unless its lookup of the owner throws.
\<close>

theorem owner_is_sticky:
  assumes "doc_ownerId s (uid c) = Some A"
    and "orNull (ownerUserId c) = None \<or> orNull (ownerUserId c) = Some A"
    and "orNull (ownerId (meta_of s (uid c))) = None \<or> orNull (ownerId (meta_of s (uid c))) = Some A"
  shows "doc_ownerId (fst (user_connect e s c)) (uid c) = Some A
    \<and> (\<not> fails e MessageFindOwner \<longrightarrow> doc_ownerId (fst (user_message e s c t)) (uid c) = Some A)"
proof
  from resolveOwner_sticky[OF assms, of e ConnectFindOwner]
  show "doc_ownerId (fst (user_connect e s c)) (uid c) = Some A"
    using assms(1) by (auto simp: user_connect_owner)
next
  show "\<not> fails e MessageFindOwner \<longrightarrow> doc_ownerId (fst (user_message e s c t)) (uid c) = Some A"
  proof
    assume ok: "\<not> fails e MessageFindOwner"
    let ?p = "user_message_begin e s c t"
    have tr: "orNull (Some A) = Some A" using assms(1) by (rule doc_ownerId_truthy)
    from resolveOwner_sticky[OF assms, of e MessageFindOwner] ok
    consider "p_target ?p = Some A" | "p_target ?p = None" "\<not> chatsCollection s"
      by (auto simp: begin_target)
    then show "doc_ownerId (fst (user_message e s c t)) (uid c) = Some A"
    proof cases
      case 1
      with doc_ownerId_user_message_resume[of e s c ?p] assms(1) tr show ?thesis
        by (auto simp: user_message_def)
    next
      case 2
      let ?s1 = "fst (forward_user_message e s (uid c) ?p)"
      let ?s2 = "append_message e MessageAppendUser ?s1 (uid c) (p_target ?p)
                   (base_message User (p_text ?p) (now e))"
      have r: "fst (user_message e s c t) = fst (ai_integration e ?s2 (uid c) ?p)"
        by (simp add: user_message_def user_message_resume_def Let_def split_beta)
      have c2: "\<not> chatsCollection ?s2"
        using 2 by (simp add: append_message_frame forward_user_message_frame)
      have d2: "doc_ownerId ?s2 (uid c) = Some A"
        using 2 assms(1)
        by (simp add: doc_ownerId_append forward_user_message_frame
            doc_ownerId_cong[of ?s1 s])
      have "doc_ownerId (fst (ai_integration e ?s2 (uid c) ?p)) (uid c) = doc_ownerId ?s2 (uid c)"
      proof (cases "processUserMessage e ?s2 (uid c) (p_text ?p) (p_target ?p)")
        case (Pair s3 reply)
        have s3: "doc_ownerId s3 (uid c) = doc_ownerId ?s2 (uid c)" "\<not> chatsCollection s3"
          using doc_ownerId_processUserMessage[of e ?s2 "uid c" "p_text ?p" "p_target ?p" "uid c"]
            processUserMessage_frame(3)[of e ?s2 "uid c" "p_text ?p" "p_target ?p"] Pair c2
          by simp_all
        with Pair show ?thesis
          by (cases reply) (simp_all add: ai_integration_def doc_ownerId_append)
      qed
      with d2 r show ?thesis by simp
    qed
  qed
qed


lemma quiet_ok: "\<not> fails quiet a" "now quiet = 0"
  by (simp_all add: quiet_def)

lemma visitor_uid: "uid visitor = ''u1''"
  by (simp add: uid_def visitor_def orNull_def)

lemma connected_alice:
  "doc_ownerId (fst (user_connect quiet idle alice)) ''u1'' = Some ''A''"
  "metadataBuffer (fst (user_connect quiet idle alice)) = Map.empty"
  "chatsCollection (fst (user_connect quiet idle alice))"
  by (simp_all add: user_connect_owner[of quiet idle alice, unfolded alice_uid] alice_resolve
        user_connect_frame)
     (simp_all add: quiet_def idle_def user_connect_def Let_def alice_resolve updateOne_upsert_def)

theorem owner_is_sticky_witness:
  "doc_ownerId (fst (user_connect quiet (fst (user_connect quiet idle alice)) visitor)) ''u1'' = Some ''A''
   \<and> doc_ownerId (fst (user_message quiet (fst (user_connect quiet idle alice)) visitor (Some ''hello'')))
        ''u1'' = Some ''A''"
proof -
  have v: "orNull (ownerUserId visitor) = None"
    by (simp add: visitor_def orNull_def)
  have m: "orNull (ownerId (meta_of (fst (user_connect quiet idle alice)) (uid visitor))) = None"
    by (simp add: meta_of_def connected_alice no_meta_def orNull_def)
  have q: "\<not> fails quiet MessageFindOwner" by (simp add: quiet_def)
  from owner_is_sticky[where s = "fst (user_connect quiet idle alice)" and c = visitor
      and A = "''A''" and e = quiet and t = "Some ''hello''"] v m q connected_alice(1)
  show ?thesis by (simp add: visitor_uid)
qed

lemma resolveOwner_normal: "orNull (resolveOwner e a s c) = resolveOwner e a s c"
proof (cases "resolveOwner e a s c")
  case None
  then show ?thesis by (simp add: orNull_def)
next
  case (Some T)
  with resolveOwner_truthy[OF Some] show ?thesis by simp
qed

lemma user_message_sets_owner:
  assumes "chatsCollection s" and "\<not> fails e MessageAppendUser"
  shows "doc_ownerId (fst (user_message e s c t)) (uid c) = resolveOwner e MessageFindOwner s c"
proof -
  let ?p = "user_message_begin e s c t"
  let ?s1 = "fst (forward_user_message e s (uid c) ?p)"
  let ?s2 = "append_message e MessageAppendUser ?s1 (uid c) (p_target ?p)
               (base_message User (p_text ?p) (now e))"
  have r: "fst (user_message e s c t) = fst (ai_integration e ?s2 (uid c) ?p)"
    by (simp add: user_message_def user_message_resume_def Let_def split_beta)
  have "doc_ownerId ?s2 (uid c) = orNull (p_target ?p)"
    using assms by (simp add: doc_ownerId_append forward_user_message_frame)
  with doc_ownerId_ai_integration[of e ?s2 "uid c" ?p]
  show ?thesis unfolding r by (auto simp: begin_target resolveOwner_normal)
qed

lemma run_snoc: "run s (evs @ [x]) = fst (step (run s evs) x)"
  by (induction evs arbitrary: s) simp_all

text \<open>
  Claim C4, as stated, fails for a message of a user. User \<open>u1\<close> connects and declares
  owner \<open>A\<close>; a metadata update assigns the user to owner \<open>B\<close>, and the stored owner is
  \<open>B\<close>; the next message of the user, on the connection that declared \<open>A\<close>, stores
  owner \<open>A\<close> again.
\<close>

theorem owner_is_sticky_counterexample:
  "doc_ownerId (run idle [(quiet, UserConnect alice), (quiet, SetMetadata (Some ''u1'') to_B)]) ''u1''
     = Some ''B''
   \<and> doc_ownerId (run idle [(quiet, UserConnect alice), (quiet, SetMetadata (Some ''u1'') to_B),
                             (quiet, UserMessage alice (Some ''hello''))]) ''u1''
     = Some ''A''"
proof -
  let ?s = "run idle [(quiet, UserConnect alice), (quiet, SetMetadata (Some ''u1'') to_B)]"
  have s: "?s = fst (set_metadata quiet (fst (user_connect quiet idle alice)) (Some ''u1'') to_B)"
    by simp
  have b: "doc_ownerId ?s ''u1'' = Some ''B''"
    unfolding s
    by (simp add: set_metadata_def Let_def connected_alice doc_ownerId_upsert orNull_def to_B_def
        quiet_ok)
  have c: "chatsCollection ?s" unfolding s by (simp add: set_metadata_frame connected_alice)
  have q: "\<not> fails quiet MessageAppendUser" by (simp add: quiet_def)
  have "run idle [(quiet, UserConnect alice), (quiet, SetMetadata (Some ''u1'') to_B),
                  (quiet, UserMessage alice (Some ''hello''))]
        = fst (user_message quiet ?s alice (Some ''hello''))"
    using run_snoc[of idle "[(quiet, UserConnect alice), (quiet, SetMetadata (Some ''u1'') to_B)]"
        "(quiet, UserMessage alice (Some ''hello''))"]
    by simp
  then have a: "doc_ownerId (run idle [(quiet, UserConnect alice), (quiet, SetMetadata (Some ''u1'') to_B),
                  (quiet, UserMessage alice (Some ''hello''))]) ''u1'' = Some ''A''"
    using user_message_sets_owner[OF c q, of alice "Some ''hello''"]
    by (simp add: alice_uid alice_resolve)
  from b a show ?thesis by (rule conjI)
qed

text \<open>
  The disconnect handler stores the owner the metadata buffer names, else the sender of
  the last owner's message in the message buffer, else \<open>null\<close>; it does not look at the
  stored document, as the notification just before it does. A user who connects,
  declaring owner \<open>A\<close>, and disconnects is stored with no owner.
\<close>

lemma doc_ownerId_buffers:
  "doc_ownerId (s\<lparr>messagesBuffer := a, metadataBuffer := b\<rparr>) u = doc_ownerId s u"
  by (simp add: doc_ownerId_def)

lemma user_disconnect_clears_owner:
  "doc_ownerId (run idle [(quiet, UserConnect alice)]) ''u1'' = Some ''A''
   \<and> doc_ownerId (run idle [(quiet, UserConnect alice), (quiet, UserDisconnect alice)]) ''u1'' = None"
proof -
  let ?s = "fst (user_connect quiet idle alice)"
  have m: "meta_of (?s\<lparr>users := (users ?s)(''u1'' := None)\<rparr>) ''u1'' = no_meta"
    by (simp add: meta_of_def connected_alice)
  have bf: "buffer_of (?s\<lparr>users := (users ?s)(''u1'' := None)\<rparr>) ''u1'' = []"
    by (simp add: buffer_of_def user_connect_def Let_def alice_resolve alice_uid idle_def
        updateOne_upsert_def quiet_def)
  have "doc_ownerId (fst (user_disconnect quiet ?s alice)) ''u1'' = None"
    by (simp add: user_disconnect_def Let_def alice_uid m bf connected_alice no_meta_def orNull_def
        last_owner_def doc_ownerId_buffers doc_ownerId_upsert quiet_ok)
  with connected_alice(1) show ?thesis by simp
qed

section \<open>Theorems: the order of the stored messages\<close>

lemma stored_cong: "db_chats s' = db_chats s \<Longrightarrow> stored_conversation s' u = stored_conversation s u"
  by (simp add: stored_conversation_def)

lemma stored_upsert:
  "stored_conversation (updateOne_upsert s v time upd) u =
     (if u = v then conversation (upd (case db_chats s v of None \<Rightarrow> new_doc time | Some doc \<Rightarrow> doc))
      else stored_conversation s u)"
  by (simp add: stored_conversation_def updateOne_upsert_def)

lemma stored_upsert_fields:
  assumes "\<And>doc. conversation (upd doc) = conversation doc"
  shows "stored_conversation (updateOne_upsert s v time upd) u = stored_conversation s u"
  by (simp add: stored_upsert assms) (simp add: stored_conversation_def new_doc_def split: option.split)

lemma stored_user_connect:
  "stored_conversation (fst (user_connect e s c)) u = stored_conversation s u"
  by (simp add: user_connect_def Let_def stored_upsert_fields split: option.split)
     (simp add: stored_conversation_def)

lemma stored_user_disconnect:
  "stored_conversation (fst (user_disconnect e s c)) u = stored_conversation s u"
  by (simp add: user_disconnect_def Let_def stored_conversation_def[of "_\<lparr>messagesBuffer := _, metadataBuffer := _\<rparr>"])
     (simp add: stored_conversation_def[symmetric] stored_upsert_fields, simp add: stored_conversation_def)

lemma stored_set_metadata:
  "stored_conversation (fst (set_metadata e s given m)) u = stored_conversation s u"
  by (simp add: set_metadata_def Let_def stored_upsert_fields split: option.split)
     (simp add: stored_conversation_def)

lemma stored_http_metadata:
  "stored_conversation (fst (http_metadata e s v m)) u = stored_conversation s u"
  by (simp add: http_metadata_def Let_def stored_upsert_fields)
     (simp add: stored_conversation_def)

lemma stored_setAiState: "stored_conversation (setAiState e s v b) u = stored_conversation s u"
  by (simp add: stored_conversation_def setAiState_frame)

lemma stored_upsert_push:
  assumes "db_chats s2 = db_chats s"
  shows "stored_conversation
           (updateOne_upsert s2 v time (\<lambda>doc. doc\<lparr>d_ownerId := x, conversation := conversation doc @ [m]\<rparr>)) u
         = (if u = v then stored_conversation s u @ [m] else stored_conversation s u)"
  using assms
  by (simp add: stored_conversation_def updateOne_upsert_def new_doc_def split: option.split)

lemma stored_owner_message:
  "\<exists>xs. stored_conversation (fst (owner_message e s c given t)) u = stored_conversation s u @ xs
        \<and> (\<forall>m\<in>set xs. m_from m = Owner)"
proof (cases "orNull given")
  case None
  then show ?thesis by (simp add: owner_message_def)
next
  case (Some v)
  let ?s1 = "handleAdminMessage e s v"
  have d: "\<And>x. db_chats (?s1\<lparr>messagesBuffer := x\<rparr>) = db_chats s"
    by (simp add: handleAdminMessage_def deactivateAiForUser_def setAiState_frame)
  have b: "\<And>x. stored_conversation (?s1\<lparr>messagesBuffer := x\<rparr>) u = stored_conversation s u"
    by (rule stored_cong) (rule d)
  show ?thesis
    using Some
    by (simp add: owner_message_def Let_def stored_upsert_push[OF d] b base_message_def)
qed

lemma from_user_owner_message:
  "from_user (stored_conversation (fst (owner_message e s c given t)) u) =
     from_user (stored_conversation s u)"
proof -
  from stored_owner_message[of e s c given t u]
  obtain xs where x: "stored_conversation (fst (owner_message e s c given t)) u =
      stored_conversation s u @ xs" "\<forall>m\<in>set xs. m_from m = Owner" by auto
  from x(2) have "from_user xs = []" by (induction xs) (simp_all add: from_user_def)
  with x(1) show ?thesis by (simp add: from_user_def)
qed

lemma stored_append_other:
  "v \<noteq> u \<Longrightarrow> stored_conversation (append_message e a s v ow m) u = stored_conversation s u"
  by (simp add: append_message_def Let_def stored_upsert) (simp add: stored_conversation_def)

lemma stored_push_other:
  "v \<noteq> u \<Longrightarrow> stored_conversation (push_existing s v m) u = stored_conversation s u"
  by (simp add: push_existing_def stored_conversation_def split: option.split)

lemma stored_processUserMessage_other:
  "v \<noteq> u \<Longrightarrow> stored_conversation (fst (processUserMessage e s v t ow)) u = stored_conversation s u"
  by (simp add: processUserMessage_def Let_def stored_push_other split: sum.split)

lemma stored_ai_integration_other:
  assumes "v \<noteq> u"
  shows "stored_conversation (fst (ai_integration e s v p)) u = stored_conversation s u"
proof (cases "processUserMessage e s v (p_text p) (p_target p)")
  case (Pair s1 reply)
  have "stored_conversation s1 u = stored_conversation s u"
    using stored_processUserMessage_other[OF assms, of e s "p_text p" "p_target p"] Pair by simp
  with Pair assms show ?thesis
    by (cases reply) (simp_all add: ai_integration_def stored_append_other)
qed

lemma stored_user_message_other:
  assumes "uid c \<noteq> u"
  shows "stored_conversation (fst (user_message_resume e s c p)) u = stored_conversation s u"
  using assms
  by (simp add: user_message_resume_def Let_def split_beta stored_ai_integration_other
      stored_append_other stored_forward)

lemma from_user_ai: "\<forall>m\<in>set ais. m_from m = Ai \<Longrightarrow> from_user ais = []"
  by (induction ais) (simp_all add: from_user_def)

lemma from_user_append: "from_user (xs @ ys) = from_user xs @ from_user ys"
  by (simp add: from_user_def)

lemma from_user_user_message:
  assumes "chatsCollection s" and "\<not> fails e MessageAppendUser"
  shows "from_user (stored_conversation (fst (user_message_resume e s c p)) (uid c)) =
         from_user (stored_conversation s (uid c)) @ [base_message User (p_text p) (now e)]"
proof -
  from stored_user_message_resume[of e s c p] assms
  obtain ais where a: "stored_conversation (fst (user_message_resume e s c p)) (uid c) =
      stored_conversation s (uid c) @ [base_message User (p_text p) (now e)] @ ais"
    "\<forall>m\<in>set ais. m_from m = Ai" by auto
  have u: "from_user [base_message User (p_text p) (now e)] = [base_message User (p_text p) (now e)]"
    by (simp add: from_user_def base_message_def)
  show ?thesis
    unfolding a(1) from_user_append from_user_ai[OF a(2)] u by simp
qed

lemma stored_owner_connect: "stored_conversation (owner_connect s c) u = stored_conversation s u"
  by (simp add: owner_connect_def stored_conversation_def split: option.split)

lemma stored_owner_disconnect: "stored_conversation (owner_disconnect s c) u = stored_conversation s u"
  by (simp add: owner_disconnect_def stored_conversation_def split: option.split)

lemma from_user_step:
  assumes "chatsCollection s" and "\<not> fails e MessageAppendUser"
  shows "from_user (stored_conversation (fst (step s (e, ev))) u) =
         from_user (stored_conversation s u) @ user_messages u [(e, ev)]"
proof (cases ev)
  case (UserMessage c t)
  show ?thesis
  proof (cases "uid c = u")
    case True
    with from_user_user_message[OF assms, of c "user_message_begin e s c t"] UserMessage
    show ?thesis by (simp add: user_message_def begin_text)
  next
    case False
    with stored_user_message_other[OF False, of e s "user_message_begin e s c t"] UserMessage
    show ?thesis by (simp add: user_message_def)
  qed
qed (simp_all add: stored_user_connect stored_user_disconnect from_user_owner_message
       stored_set_metadata stored_http_metadata stored_owner_connect stored_owner_disconnect
       resetAiForUser_def activateAiForUser_def stored_setAiState)

lemma step_chatsCollection: "chatsCollection (fst (step s x)) = chatsCollection s"
proof (cases x)
  case (Pair e ev)
  then show ?thesis
    by (cases ev)
       (simp_all add: user_connect_frame user_disconnect_frame user_message_def
          user_message_resume_frame owner_connect_def owner_disconnect_def owner_message_frame
          set_metadata_frame http_metadata_frame resetAiForUser_def activateAiForUser_def
          setAiState_frame split: option.split)
qed

lemma user_messages_Cons: "user_messages u (x # evs) = user_messages u [x] @ user_messages u evs"
proof (cases x)
  case (Pair e ev)
  then show ?thesis by (cases ev) simp_all
qed

text \<open>
  Claim C5, as amended. When the handlers run one after the other, each to its end, with
  the database connected and no append of a user's message throwing, the messages of a
  user in the stored conversation are those that were there, followed by the messages
  of that user among the events, in the order of the events. Whatever else the events
  are makes no difference.
\<close>

theorem stored_order:
  assumes "chatsCollection s" and "\<forall>x\<in>set evs. \<not> fails (fst x) MessageAppendUser"
  shows "from_user (stored_conversation (run s evs) u) =
         from_user (stored_conversation s u) @ user_messages u evs"
  using assms
proof (induction evs arbitrary: s)
  case Nil
  then show ?case by simp
next
  case (Cons x evs)
  obtain e ev where x: "x = (e, ev)" by (cases x)
  have ok: "\<not> fails e MessageAppendUser" using Cons.prems(2) x by simp
  have st: "from_user (stored_conversation (fst (step s x)) u) =
            from_user (stored_conversation s u) @ user_messages u [x]"
    unfolding x by (rule from_user_step[OF Cons.prems(1) ok])
  have "from_user (stored_conversation (run (fst (step s x)) evs) u) =
        from_user (stored_conversation (fst (step s x)) u) @ user_messages u evs"
    using Cons.prems by (intro Cons.IH) (simp_all add: step_chatsCollection)
  then show ?case
    using st user_messages_Cons[of u x evs] by simp
qed

theorem stored_order_witness:
  "map m_text (from_user (stored_conversation
     (run idle [(quiet, UserConnect alice), (quiet, UserMessage alice (Some ''first'')),
                (quiet, OwnerMessage owner_A (Some ''u1'') ''hi''),
                (quiet, UserMessage alice (Some ''second''))]) ''u1''))
   = [''first'', ''second'']"
proof -
  have i: "chatsCollection idle" "stored_conversation idle ''u1'' = []"
    by (simp_all add: idle_def stored_conversation_def)
  from stored_order[where s = idle and u = "''u1''"
      and evs = "[(quiet, UserConnect alice), (quiet, UserMessage alice (Some ''first'')),
                (quiet, OwnerMessage owner_A (Some ''u1'') ''hi''),
                (quiet, UserMessage alice (Some ''second''))]"] i
  show ?thesis by (simp add: quiet_ok alice_uid from_user_def base_message_def)
qed

text \<open>
  Claim C5, as stated, fails when handlers overlap. User \<open>u1\<close> sends \<open>first\<close>: the
  handler finds no metadata in the buffer and awaits their load from the database. A
  metadata update for the user arrives and fills the buffer. The user sends \<open>second\<close>:
  its handler finds the metadata, awaits nothing and stores the message. Then the load
  returns and the first handler stores \<open>first\<close>: the stored order is \<open>second\<close>, \<open>first\<close>.
\<close>

theorem stored_order_counterexample:
  "map m_text (from_user (stored_conversation
     (fst (interleave (fst (step idle (quiet, UserConnect alice)), [])
        [Arrive quiet alice (Some ''first''),
         Handle quiet (SetMetadata (Some ''u1'') bob),
         Arrive quiet alice (Some ''second''),
         Resume quiet])) ''u1''))
   = [''second'', ''first'']"
proof -
  let ?s0 = "fst (user_connect quiet idle alice)"
  let ?p1 = "user_message_begin quiet ?s0 alice (Some ''first'')"
  let ?s1 = "fst (set_metadata quiet ?s0 (Some ''u1'') bob)"
  let ?p2 = "user_message_begin quiet ?s1 alice (Some ''second'')"
  let ?s2 = "fst (user_message_resume quiet ?s1 alice ?p2)"
  let ?s3 = "fst (user_message_resume quiet ?s2 alice ?p1)"
  have l1: "p_load ?p1"
    by (simp add: user_message_begin_def Let_def alice_resolve alice_uid meta_of_def
        connected_alice no_meta_def truthy_def orNull_def)
  have m1: "metadataBuffer ?s1 ''u1'' = Some bob"
    by (simp add: set_metadata_def Let_def orNull_def connected_alice quiet_ok bob_def
        updateOne_upsert_frame)
  have l2: "\<not> p_load ?p2"
    unfolding user_message_begin_def Let_def meta_of_def alice_uid m1
    by (simp add: bob_def truthy_def orNull_def)
  have run: "fst (interleave (fst (step idle (quiet, UserConnect alice)), [])
        [Arrive quiet alice (Some ''first''),
         Handle quiet (SetMetadata (Some ''u1'') bob),
         Arrive quiet alice (Some ''second''),
         Resume quiet]) = ?s3"
    using l1 l2 by (simp add: Let_def)
  have c1: "chatsCollection ?s1" by (simp add: set_metadata_frame connected_alice)
  have c2: "chatsCollection ?s2" by (simp add: user_message_resume_frame c1)
  have e0: "stored_conversation ?s0 ''u1'' = []"
    unfolding stored_user_connect by (simp add: idle_def stored_conversation_def)
  have e1: "stored_conversation ?s1 ''u1'' = []"
    by (simp add: stored_set_metadata e0)
  have t: "p_text ?p1 = ''first''" "p_text ?p2 = ''second''" by (simp_all add: begin_text)
  have f2: "from_user (stored_conversation ?s2 ''u1'') = [base_message User ''second'' 0]"
    using from_user_user_message[OF c1 quiet_ok(1), of alice ?p2]
    by (simp add: alice_uid e1 t quiet_ok from_user_def)
  have f3: "from_user (stored_conversation ?s3 ''u1'') =
            [base_message User ''second'' 0, base_message User ''first'' 0]"
    using from_user_user_message[OF c2 quiet_ok(1), of alice ?p1]
    by (simp add: alice_uid f2 t quiet_ok)
  show ?thesis unfolding run f3 by (simp add: base_message_def)
qed

end
